theory Spec2Isabelle
  imports Main "HOL-Library.List_Lexorder"
begin

section \<open>Values\<close>

text \<open>
  The converters work on parsed JSON. A Python \<open>str\<close> is a sequence of Unicode code
  points, so a string is a list of natural numbers; the Chinese field names of the
  source are written out as their code points. A \<open>dict\<close> keeps insertion order, so it
  is an association list; the JSON parser never produces a repeated key (predicate
  \<open>wf_dict\<close>). Numbers with a fractional part are outside this model.
\<close>

type_synonym ustr = "nat list"

datatype json =
    JNull
  | JBool bool
  | JInt int
  | JStr ustr
  | JList "json list"
  | JDict "(ustr \<times> json) list"

datatype py_error = AttributeError | IndexError | ValueError | TypeError

text \<open>
  What the interpreter supplies and the repository does not define: the Unicode
  character database for the code points beyond ASCII (decimal digit value, the wider
  \<open>isdigit\<close> class, white space), the rendering \<open>str()\<close> gives a list or a dict, and
  the limit on the number of digits of a conversion between \<open>int\<close> and \<open>str\<close>
  (\<open>sys.get_int_max_str_digits()\<close>: 4300 unless configured otherwise, 0 for no limit, which
  is also what an interpreter older than the limit has).
\<close>

record py_env =
  uni_decimal :: "nat \<Rightarrow> nat option"
  uni_digit :: "nat \<Rightarrow> bool"
  uni_space :: "nat \<Rightarrow> bool"
  container_str :: "json \<Rightarrow> ustr"
  int_max_str_digits :: nat

definition ebind :: "py_error + 'a \<Rightarrow> ('a \<Rightarrow> py_error + 'b) \<Rightarrow> py_error + 'b" where
  "ebind x f = (case x of Inl e \<Rightarrow> Inl e | Inr v \<Rightarrow> f v)"

subsection \<open>Field names and string constants of the source\<close>

abbreviation (input) K_type :: ustr where "K_type \<equiv> [31867, 22411]"  \<comment> \<open>U+7C7B U+578B\<close>
abbreviation (input) K_name :: ustr where "K_name \<equiv> [21517, 31216]"  \<comment> \<open>U+540D U+79F0\<close>
abbreviation (input) K_orig :: ustr where "K_orig \<equiv> [21407, 21517]"  \<comment> \<open>U+539F U+540D\<close>
abbreviation (input) K_domain :: ustr where "K_domain \<equiv> [39046, 22495]"  \<comment> \<open>U+9886 U+57DF\<close>
abbreviation (input) K_domain1 :: ustr where "K_domain1 \<equiv> [39046, 22495, 49]"  \<comment> \<open>U+9886 U+57DF U+0031\<close>
abbreviation (input) K_domain2 :: ustr where "K_domain2 \<equiv> [39046, 22495, 50]"  \<comment> \<open>U+9886 U+57DF U+0032\<close>
abbreviation (input) K_init_hp :: ustr where "K_init_hp \<equiv> [21021, 22987, 29983, 21629, 28857]"  \<comment> \<open>U+521D U+59CB U+751F U+547D U+70B9\<close>
abbreviation (input) K_init_evasion :: ustr where "K_init_evasion \<equiv> [21021, 22987, 38378, 36991, 20540]"  \<comment> \<open>U+521D U+59CB U+95EA U+907F U+503C\<close>
abbreviation (input) K_init_items :: ustr where "K_init_items \<equiv> [21021, 22987, 29289, 21697]"  \<comment> \<open>U+521D U+59CB U+7269 U+54C1\<close>
abbreviation (input) K_start_hp :: ustr where "K_start_hp \<equiv> [36215, 22987, 29983, 21629]"  \<comment> \<open>U+8D77 U+59CB U+751F U+547D\<close>
abbreviation (input) K_start_evasion :: ustr where "K_start_evasion \<equiv> [36215, 22987, 38378, 36991]"  \<comment> \<open>U+8D77 U+59CB U+95EA U+907F\<close>
abbreviation (input) K_start_items :: ustr where "K_start_items \<equiv> [36215, 22987, 29289, 21697]"  \<comment> \<open>U+8D77 U+59CB U+7269 U+54C1\<close>
abbreviation (input) K_intro :: ustr where "K_intro \<equiv> [31616, 20171]"  \<comment> \<open>U+7B80 U+4ECB\<close>
abbreviation (input) K_hope :: ustr where "K_hope \<equiv> [24076, 26395, 29305, 24615]"  \<comment> \<open>U+5E0C U+671B U+7279 U+6027\<close>
abbreviation (input) K_class_feature :: ustr where "K_class_feature \<equiv> [32844, 19994, 29305, 24615]"  \<comment> \<open>U+804C U+4E1A U+7279 U+6027\<close>
abbreviation (input) K_background :: ustr where "K_background \<equiv> [32972, 26223, 38382, 39064]"  \<comment> \<open>U+80CC U+666F U+95EE U+9898\<close>
abbreviation (input) K_relation :: ustr where "K_relation \<equiv> [20851, 31995, 38382, 39064]"  \<comment> \<open>U+5173 U+7CFB U+95EE U+9898\<close>
abbreviation (input) K_desc :: ustr where "K_desc \<equiv> [25551, 36848]"  \<comment> \<open>U+63CF U+8FF0\<close>
abbreviation (input) K_race :: ustr where "K_race \<equiv> [31181, 26063]"  \<comment> \<open>U+79CD U+65CF\<close>
abbreviation (input) K_effect :: ustr where "K_effect \<equiv> [25928, 26524]"  \<comment> \<open>U+6548 U+679C\<close>
abbreviation (input) K_category :: ustr where "K_category \<equiv> [31867, 21035]"  \<comment> \<open>U+7C7B U+522B\<close>
abbreviation (input) K_trait :: ustr where "K_trait \<equiv> [29305, 24615]"  \<comment> \<open>U+7279 U+6027\<close>
abbreviation (input) K_temper :: ustr where "K_temper \<equiv> [24615, 26684]"  \<comment> \<open>U+6027 U+683C\<close>
abbreviation (input) K_parent :: ustr where "K_parent \<equiv> [20027, 32844]"  \<comment> \<open>U+4E3B U+804C\<close>
abbreviation (input) K_subclass :: ustr where "K_subclass \<equiv> [23376, 32844, 19994]"  \<comment> \<open>U+5B50 U+804C U+4E1A\<close>
abbreviation (input) K_level :: ustr where "K_level \<equiv> [31561, 32423]"  \<comment> \<open>U+7B49 U+7EA7\<close>
abbreviation (input) K_cast_attr :: ustr where "K_cast_attr \<equiv> [26045, 27861, 23646, 24615]"  \<comment> \<open>U+65BD U+6CD5 U+5C5E U+6027\<close>
abbreviation (input) K_cast :: ustr where "K_cast \<equiv> [26045, 27861]"  \<comment> \<open>U+65BD U+6CD5\<close>
abbreviation (input) K_attr :: ustr where "K_attr \<equiv> [23646, 24615]"  \<comment> \<open>U+5C5E U+6027\<close>
abbreviation (input) K_recall :: ustr where "K_recall \<equiv> [22238, 24819]"  \<comment> \<open>U+56DE U+60F3\<close>
abbreviation (input) K_brief :: ustr where "K_brief \<equiv> [31616, 30053, 20449, 24687]"  \<comment> \<open>U+7B80 U+7565 U+4FE1 U+606F\<close>
abbreviation (input) K_trait_desc :: ustr where "K_trait_desc \<equiv> [29305, 24615, 25551, 36848]"  \<comment> \<open>U+7279 U+6027 U+63CF U+8FF0\<close>
abbreviation (input) K_trait_question :: ustr where "K_trait_question \<equiv> [29305, 24615, 38382, 39064]"  \<comment> \<open>U+7279 U+6027 U+95EE U+9898\<close>
abbreviation (input) K_original :: ustr where "K_original \<equiv> [21407, 25991]"  \<comment> \<open>U+539F U+6587\<close>
abbreviation (input) K_rank :: ustr where "K_rank \<equiv> [20301, 38454]"  \<comment> \<open>U+4F4D U+9636\<close>
abbreviation (input) K_kind :: ustr where "K_kind \<equiv> [31181, 31867]"  \<comment> \<open>U+79CD U+7C7B\<close>
abbreviation (input) K_tendency :: ustr where "K_tendency \<equiv> [36235, 21521]"  \<comment> \<open>U+8D8B U+5411\<close>
abbreviation (input) K_difficulty :: ustr where "K_difficulty \<equiv> [38590, 24230]"  \<comment> \<open>U+96BE U+5EA6\<close>
abbreviation (input) K_enemies :: ustr where "K_enemies \<equiv> [28508, 22312, 25932, 20154]"  \<comment> \<open>U+6F5C U+5728 U+654C U+4EBA\<close>
abbreviation (input) S_profession :: ustr where "S_profession \<equiv> [20027, 32844]"  \<comment> \<open>U+4E3B U+804C\<close>
abbreviation (input) S_ancestry :: ustr where "S_ancestry \<equiv> [31181, 26063]"  \<comment> \<open>U+79CD U+65CF\<close>
abbreviation (input) S_community :: ustr where "S_community \<equiv> [31038, 32676]"  \<comment> \<open>U+793E U+7FA4\<close>
abbreviation (input) S_subclass :: ustr where "S_subclass \<equiv> [23376, 32844]"  \<comment> \<open>U+5B50 U+804C\<close>
abbreviation (input) S_domain_card :: ustr where "S_domain_card \<equiv> [39046, 22495, 21345]"  \<comment> \<open>U+9886 U+57DF U+5361\<close>
abbreviation (input) S_no_cast :: ustr where "S_no_cast \<equiv> [19981, 21487, 26045, 27861]"  \<comment> \<open>U+4E0D U+53EF U+65BD U+6CD5\<close>
abbreviation (input) S_default_type :: ustr where "S_default_type \<equiv> [40664, 35748, 31867, 22411]"  \<comment> \<open>U+9ED8 U+8BA4 U+7C7B U+578B\<close>
abbreviation (input) S_basic :: ustr where "S_basic \<equiv> [22522, 30784]"  \<comment> \<open>U+57FA U+7840\<close>
abbreviation (input) S_foundation :: ustr where "S_foundation \<equiv> [22522, 30707]"  \<comment> \<open>U+57FA U+77F3\<close>
abbreviation (input) S_advanced :: ustr where "S_advanced \<equiv> [36827, 38454]"  \<comment> \<open>U+8FDB U+9636\<close>
abbreviation (input) S_specialised :: ustr where "S_specialised \<equiv> [19987, 31934]"  \<comment> \<open>U+4E13 U+7CBE\<close>
abbreviation (input) S_mastery :: ustr where "S_mastery \<equiv> [31934, 36890]"  \<comment> \<open>U+7CBE U+901A\<close>
abbreviation (input) S_master :: ustr where "S_master \<equiv> [22823, 24072]"  \<comment> \<open>U+5927 U+5E08\<close>
abbreviation (input) S_spend :: ustr where "S_spend \<equiv> [33457, 36153]"  \<comment> \<open>U+82B1 U+8D39\<close>
abbreviation (input) S_fear_points :: ustr where "S_fear_points \<equiv> [24656, 24807, 28857]"  \<comment> \<open>U+6050 U+60E7 U+70B9\<close>
abbreviation (input) K_id :: ustr where "K_id \<equiv> [105, 100]"  \<comment> \<open>"id"\<close>
abbreviation (input) K_imageUrl :: ustr where "K_imageUrl \<equiv> [105, 109, 97, 103, 101, 85, 114, 108]"  \<comment> \<open>"imageUrl"\<close>
abbreviation (input) S_NA :: ustr where "S_NA \<equiv> [78, 47, 65]"  \<comment> \<open>"N/A"\<close>
abbreviation (input) K_pkg_name :: ustr where "K_pkg_name \<equiv> [110, 97, 109, 101]"  \<comment> \<open>"name"\<close>
abbreviation (input) K_version :: ustr where "K_version \<equiv> [118, 101, 114, 115, 105, 111, 110]"  \<comment> \<open>"version"\<close>
abbreviation (input) K_description :: ustr where "K_description \<equiv> [100, 101, 115, 99, 114, 105, 112, 116, 105, 111, 110]"  \<comment> \<open>"description"\<close>
abbreviation (input) K_author :: ustr where "K_author \<equiv> [97, 117, 116, 104, 111, 114]"  \<comment> \<open>"author"\<close>
abbreviation (input) K_cfd :: ustr where "K_cfd \<equiv> [99, 117, 115, 116, 111, 109, 70, 105, 101, 108, 100, 68, 101, 102, 105, 110, 105, 116, 105, 111, 110, 115]"  \<comment> \<open>"customFieldDefinitions"\<close>
abbreviation (input) K_professions :: ustr where "K_professions \<equiv> [112, 114, 111, 102, 101, 115, 115, 105, 111, 110, 115]"  \<comment> \<open>"professions"\<close>
abbreviation (input) K_ancestries :: ustr where "K_ancestries \<equiv> [97, 110, 99, 101, 115, 116, 114, 105, 101, 115]"  \<comment> \<open>"ancestries"\<close>
abbreviation (input) K_communities :: ustr where "K_communities \<equiv> [99, 111, 109, 109, 117, 110, 105, 116, 105, 101, 115]"  \<comment> \<open>"communities"\<close>
abbreviation (input) K_domains :: ustr where "K_domains \<equiv> [100, 111, 109, 97, 105, 110, 115]"  \<comment> \<open>"domains"\<close>
abbreviation (input) K_variants :: ustr where "K_variants \<equiv> [118, 97, 114, 105, 97, 110, 116, 115]"  \<comment> \<open>"variants"\<close>
abbreviation (input) K_profession :: ustr where "K_profession \<equiv> [112, 114, 111, 102, 101, 115, 115, 105, 111, 110]"  \<comment> \<open>"profession"\<close>
abbreviation (input) K_ancestry :: ustr where "K_ancestry \<equiv> [97, 110, 99, 101, 115, 116, 114, 121]"  \<comment> \<open>"ancestry"\<close>
abbreviation (input) K_community :: ustr where "K_community \<equiv> [99, 111, 109, 109, 117, 110, 105, 116, 121]"  \<comment> \<open>"community"\<close>
abbreviation (input) K_subclass_bucket :: ustr where "K_subclass_bucket \<equiv> [115, 117, 98, 99, 108, 97, 115, 115]"  \<comment> \<open>"subclass"\<close>
abbreviation (input) K_domain_bucket :: ustr where "K_domain_bucket \<equiv> [100, 111, 109, 97, 105, 110]"  \<comment> \<open>"domain"\<close>
abbreviation (input) K_variant :: ustr where "K_variant \<equiv> [118, 97, 114, 105, 97, 110, 116]"  \<comment> \<open>"variant"\<close>
abbreviation (input) S_item :: ustr where "S_item \<equiv> [105, 116, 101, 109]"  \<comment> \<open>"item"\<close>
abbreviation (input) S_True :: ustr where "S_True \<equiv> [84, 114, 117, 101]"  \<comment> \<open>"True"\<close>
abbreviation (input) S_False :: ustr where "S_False \<equiv> [70, 97, 108, 115, 101]"  \<comment> \<open>"False"\<close>
abbreviation (input) S_None :: ustr where "S_None \<equiv> [78, 111, 110, 101]"  \<comment> \<open>"None"\<close>
abbreviation (input) K_keyword :: ustr where "K_keyword \<equiv> [107, 101, 121, 119, 111, 114, 100]"  \<comment> \<open>"keyword"\<close>
abbreviation (input) K_cat :: ustr where "K_cat \<equiv> [99, 97, 116, 101, 103, 111, 114, 121]"  \<comment> \<open>"category"\<close>
abbreviation (input) K_display :: ustr where "K_display \<equiv> [100, 105, 115, 112, 108, 97, 121]"  \<comment> \<open>"display"\<close>
abbreviation (input) S_normal :: ustr where "S_normal \<equiv> [110, 111, 114, 109, 97, 108]"  \<comment> \<open>"normal"\<close>
abbreviation (input) K_nameEn :: ustr where "K_nameEn \<equiv> [110, 97, 109, 101, 69, 110]"  \<comment> \<open>"nameEn"\<close>
abbreviation (input) K_rank_out :: ustr where "K_rank_out \<equiv> [114, 97, 110, 107]"  \<comment> \<open>"rank"\<close>
abbreviation (input) K_type_out :: ustr where "K_type_out \<equiv> [116, 121, 112, 101]"  \<comment> \<open>"type"\<close>
abbreviation (input) K_tendencies :: ustr where "K_tendencies \<equiv> [116, 101, 110, 100, 101, 110, 99, 105, 101, 115]"  \<comment> \<open>"tendencies"\<close>
abbreviation (input) K_difficulty_out :: ustr where "K_difficulty_out \<equiv> [100, 105, 102, 102, 105, 99, 117, 108, 116, 121]"  \<comment> \<open>"difficulty"\<close>
abbreviation (input) K_enemies_out :: ustr where "K_enemies_out \<equiv> [101, 110, 101, 109, 105, 101, 115]"  \<comment> \<open>"enemies"\<close>
abbreviation (input) K_decoratorColor :: ustr where "K_decoratorColor \<equiv> [100, 101, 99, 111, 114, 97, 116, 111, 114, 67, 111, 108, 111, 114]"  \<comment> \<open>"decoratorColor"\<close>
abbreviation (input) K_highlightBgColor :: ustr where "K_highlightBgColor \<equiv> [104, 105, 103, 104, 108, 105, 103, 104, 116, 66, 103, 67, 111, 108, 111, 114]"  \<comment> \<open>"highlightBgColor"\<close>
abbreviation (input) K_highlightTextColor :: ustr where "K_highlightTextColor \<equiv> [104, 105, 103, 104, 108, 105, 103, 104, 116, 84, 101, 120, 116, 67, 111, 108, 111, 114]"  \<comment> \<open>"highlightTextColor"\<close>
abbreviation (input) K_imageSettings :: ustr where "K_imageSettings \<equiv> [105, 109, 97, 103, 101, 83, 101, 116, 116, 105, 110, 103, 115]"  \<comment> \<open>"imageSettings"\<close>
abbreviation (input) K_src :: ustr where "K_src \<equiv> [115, 114, 99]"  \<comment> \<open>"src"\<close>
abbreviation (input) K_width :: ustr where "K_width \<equiv> [119, 105, 100, 116, 104]"  \<comment> \<open>"width"\<close>
abbreviation (input) K_height :: ustr where "K_height \<equiv> [104, 101, 105, 103, 104, 116]"  \<comment> \<open>"height"\<close>
abbreviation (input) K_transform :: ustr where "K_transform \<equiv> [116, 114, 97, 110, 115, 102, 111, 114, 109]"  \<comment> \<open>"transform"\<close>
abbreviation (input) K_hideBorder :: ustr where "K_hideBorder \<equiv> [104, 105, 100, 101, 66, 111, 114, 100, 101, 114]"  \<comment> \<open>"hideBorder"\<close>
abbreviation (input) K_traits :: ustr where "K_traits \<equiv> [116, 114, 97, 105, 116, 115]"  \<comment> \<open>"traits"\<close>
abbreviation (input) K_fear :: ustr where "K_fear \<equiv> [102, 101, 97, 114]"  \<comment> \<open>"fear"\<close>
abbreviation (input) K_cost :: ustr where "K_cost \<equiv> [99, 111, 115, 116]"  \<comment> \<open>"cost"\<close>
abbreviation (input) K_desc_out :: ustr where "K_desc_out \<equiv> [100, 101, 115, 99]"  \<comment> \<open>"desc"\<close>
abbreviation (input) K_qs :: ustr where "K_qs \<equiv> [113, 115]"  \<comment> \<open>"qs"\<close>
abbreviation (input) S_color_env :: ustr where "S_color_env \<equiv> [35, 49, 99, 53, 51, 56, 97]"  \<comment> \<open>"#1c538a"\<close>
abbreviation (input) S_color_bg :: ustr where "S_color_bg \<equiv> [35, 56, 53, 50, 48, 50, 48]"  \<comment> \<open>"#852020"\<close>
abbreviation (input) S_color_text :: ustr where "S_color_text \<equiv> [35, 102, 102, 102, 102, 102, 102]"  \<comment> \<open>"#ffffff"\<close>
abbreviation (input) S_350 :: ustr where "S_350 \<equiv> [51, 53, 48]"  \<comment> \<open>"350"\<close>
abbreviation (input) S_200 :: ustr where "S_200 \<equiv> [50, 48, 48]"  \<comment> \<open>"200"\<close>

subsection \<open>Strings\<close>

text \<open>
  \<open>replace old new s\<close> is \<open>s.replace(old, new)\<close>: occurrences are replaced from the
  left and do not overlap. Every call in the source passes a non-empty literal for
  \<open>old\<close>.
\<close>

fun replace :: "ustr \<Rightarrow> ustr \<Rightarrow> ustr \<Rightarrow> ustr" where
  "replace old new [] = []"
| "replace old new (c # cs) =
     (if old \<noteq> [] \<and> take (length old) (c # cs) = old
      then new @ replace old new (drop (length old - 1) cs)
      else c # replace old new cs)"

text \<open>
  \<open>split_chr c s\<close> is \<open>s.split(sep)\<close> for a separator of one code point, which is
  what every call in the source passes; \<open>split_once\<close> is \<open>s.split(sep, 1)\<close> for a
  string that contains the separator; \<open>join_chr\<close> puts the separator back.
\<close>

fun split_chr :: "nat \<Rightarrow> ustr \<Rightarrow> ustr list" where
  "split_chr c [] = [[]]"
| "split_chr c (x # xs) =
     (if x = c then [] # split_chr c xs
      else (case split_chr c xs of p # ps \<Rightarrow> (x # p) # ps | [] \<Rightarrow> [[x]]))"

definition split_once :: "nat \<Rightarrow> ustr \<Rightarrow> ustr \<times> ustr" where
  "split_once c s = (takeWhile (\<lambda>x. x \<noteq> c) s, drop 1 (dropWhile (\<lambda>x. x \<noteq> c) s))"

fun join_chr :: "nat \<Rightarrow> ustr list \<Rightarrow> ustr" where
  "join_chr c [] = []"
| "join_chr c [p] = p"
| "join_chr c (p # q # ps) = p @ c # join_chr c (q # ps)"

text \<open>Decimal rendering of integers, as \<open>str()\<close> and the f-strings produce it.\<close>

fun show_nat :: "nat \<Rightarrow> ustr" where
  "show_nat n = (if n < 10 then [48 + n] else show_nat (n div 10) @ [48 + n mod 10])"

declare show_nat.simps [simp del]

definition show_int :: "int \<Rightarrow> ustr" where
  "show_int i = (if i < 0 then 45 # show_nat (nat (- i)) else show_nat (nat i))"

subsection \<open>Character classes\<close>

text \<open>
  The ASCII part of each class is fixed; beyond ASCII the class is read from the
  environment. \<open>is_space\<close> is the class of \<open>str.isspace\<close>, \<open>str.strip\<close> and the regular
  expression \<open>\s\<close>; \<open>int_space\<close> is the white space \<open>int()\<close> skips, which leaves out
  the four ASCII separators U+001C to U+001F; \<open>decimal_val\<close> is the class of \<open>\d\<close> and
  of the digits \<open>int()\<close> reads; \<open>is_digit\<close> is the wider class of \<open>str.isdigit\<close>. No code
  point is both white space and a digit: the white-space table is read first, as
  \<open>int()\<close> does.
\<close>

definition decimal_val :: "py_env \<Rightarrow> nat \<Rightarrow> nat option" where
  "decimal_val u c =
     (if 48 \<le> c \<and> c \<le> 57 then Some (c - 48)
      else if c < 128 \<or> uni_space u c then None else uni_decimal u c)"

definition is_digit :: "py_env \<Rightarrow> nat \<Rightarrow> bool" where
  "is_digit u c = (decimal_val u c \<noteq> None \<or> (128 \<le> c \<and> uni_digit u c))"

definition is_space :: "py_env \<Rightarrow> nat \<Rightarrow> bool" where
  "is_space u c =
     ((9 \<le> c \<and> c \<le> 13) \<or> (28 \<le> c \<and> c \<le> 32) \<or> (128 \<le> c \<and> uni_space u c))"

definition int_space :: "py_env \<Rightarrow> nat \<Rightarrow> bool" where
  "int_space u c = ((9 \<le> c \<and> c \<le> 13) \<or> c = 32 \<or> (128 \<le> c \<and> uni_space u c))"

definition py_isdigit :: "py_env \<Rightarrow> ustr \<Rightarrow> bool" where
  "py_isdigit u s = (s \<noteq> [] \<and> list_all (is_digit u) s)"

subsection \<open>Built-in operations on values\<close>

text \<open>
  \<open>int(s)\<close> on a string: white space is skipped at both ends, one sign may come
  first, and the digits may be grouped by single underscores. \<open>scan_digits\<close> reads the
  digits up to the first code point that is neither a digit nor an underscore; the flag
  says whether the code point just read was a digit. A string with more digits than the
  interpreter's limit is refused with the \<open>ValueError\<close> a malformed string gets; the
  interpreter applies the limit to strings of more than 640 digits only, and counts
  neither the sign nor the underscores.
\<close>

definition over_limit :: "py_env \<Rightarrow> nat \<Rightarrow> bool" where
  "over_limit u n = (640 < n \<and> 0 < int_max_str_digits u \<and> int_max_str_digits u < n)"

fun scan_digits :: "py_env \<Rightarrow> bool \<Rightarrow> nat \<Rightarrow> ustr \<Rightarrow> (nat \<times> ustr) option" where
  "scan_digits u prev acc [] = (if prev then Some (acc, []) else None)"
| "scan_digits u prev acc (c # cs) =
     (case decimal_val u c of
        Some d \<Rightarrow> scan_digits u True (10 * acc + d) cs
      | None \<Rightarrow>
          if c = 95 then (if prev then scan_digits u False acc cs else None)
          else if prev then Some (acc, c # cs) else None)"

definition py_int_str :: "py_env \<Rightarrow> ustr \<Rightarrow> int option" where
  "py_int_str u s =
     (let t = dropWhile (int_space u) s;
          neg = (case t of c # cs \<Rightarrow> c = 45 | [] \<Rightarrow> False);
          body = (case t of c # cs \<Rightarrow> if c = 43 \<or> c = 45 then cs else t | [] \<Rightarrow> [])
      in case scan_digits u False 0 body of
           None \<Rightarrow> None
         | Some (n, rest) \<Rightarrow>
             if list_all (int_space u) rest \<and>
                \<not> over_limit u (length (filter (\<lambda>c. decimal_val u c \<noteq> None) body))
             then Some (if neg then - int n else int n) else None)"

definition py_int :: "py_env \<Rightarrow> json \<Rightarrow> py_error + int" where
  "py_int u v =
     (case v of
        JInt i \<Rightarrow> Inr i
      | JBool b \<Rightarrow> Inr (if b then 1 else 0)
      | JStr s \<Rightarrow> (case py_int_str u s of None \<Rightarrow> Inl ValueError | Some i \<Rightarrow> Inr i)
      | _ \<Rightarrow> Inl TypeError)"

definition py_str :: "py_env \<Rightarrow> json \<Rightarrow> ustr" where
  "py_str u v =
     (case v of
        JStr s \<Rightarrow> s
      | JInt i \<Rightarrow> show_int i
      | JBool b \<Rightarrow> (if b then S_True else S_False)
      | JNull \<Rightarrow> S_None
      | _ \<Rightarrow> container_str u v)"

text \<open>
  \<open>str()\<close> of an integer with more digits than the interpreter's limit raises
  \<open>ValueError\<close>, and \<open>json.load\<close> returns no such integer. \<open>py_str\<close> renders every integer;
  \<open>str_fits u i\<close> says that \<open>i\<close> is within the limit.
\<close>

definition str_fits :: "py_env \<Rightarrow> int \<Rightarrow> bool" where
  "str_fits u i = (\<not> over_limit u (length (show_nat (nat \<bar>i\<bar>))))"

definition py_truthy :: "json \<Rightarrow> bool" where
  "py_truthy v =
     (case v of
        JNull \<Rightarrow> False
      | JBool b \<Rightarrow> b
      | JInt i \<Rightarrow> i \<noteq> 0
      | JStr s \<Rightarrow> s \<noteq> []
      | JList xs \<Rightarrow> xs \<noteq> []
      | JDict kvs \<Rightarrow> kvs \<noteq> [])"

text \<open>
  A string method called on a value that is not a string (\<open>replace\<close>, \<open>split\<close>,
  \<open>isdigit\<close>) raises \<open>AttributeError\<close>; \<open>a + b\<close> with a string literal on one side
  raises \<open>TypeError\<close> unless the other side is a string too.
\<close>

definition str_of :: "json \<Rightarrow> py_error + ustr" where
  "str_of v = (case v of JStr s \<Rightarrow> Inr s | _ \<Rightarrow> Inl AttributeError)"

definition str_operand :: "json \<Rightarrow> py_error + ustr" where
  "str_operand v = (case v of JStr s \<Rightarrow> Inr s | _ \<Rightarrow> Inl TypeError)"

definition py_index :: "'a list \<Rightarrow> nat \<Rightarrow> py_error + 'a" where
  "py_index xs i = (if i < length xs then Inr (xs ! i) else Inl IndexError)"

text \<open>
  Python's \<open>==\<close> on parsed JSON: \<open>True\<close> equals \<open>1\<close>, and two dicts are equal whatever the
  order of their keys. Both are removed by a normal form.
\<close>

primrec norm_json :: "json \<Rightarrow> json" where
  "norm_json JNull = JNull"
| "norm_json (JBool b) = JInt (if b then 1 else 0)"
| "norm_json (JInt i) = JInt i"
| "norm_json (JStr s) = JStr s"
| "norm_json (JList xs) = JList (map norm_json xs)"
| "norm_json (JDict kvs) = JDict (sort_key fst (map (map_prod id norm_json) kvs))"

definition py_eq :: "json \<Rightarrow> json \<Rightarrow> bool" where
  "py_eq a b = (norm_json a = norm_json b)"

definition py_in :: "json \<Rightarrow> json list \<Rightarrow> bool" where
  "py_in x xs = list_ex (\<lambda>y. py_eq y x) xs"

text \<open>\<open>sep in v\<close> for a separator \<open>sep\<close> of one code point.\<close>

definition py_contains :: "json \<Rightarrow> nat \<Rightarrow> py_error + bool" where
  "py_contains v c =
     (case v of
        JStr s \<Rightarrow> Inr (c \<in> set s)
      | JList xs \<Rightarrow> Inr (py_in (JStr [c]) xs)
      | JDict kvs \<Rightarrow> Inr ([c] \<in> set (map fst kvs))
      | _ \<Rightarrow> Inl TypeError)"

subsection \<open>Dicts\<close>

definition wf_dict :: "(ustr \<times> json) list \<Rightarrow> bool" where
  "wf_dict d = distinct (map fst d)"

definition dict_get :: "(ustr \<times> json) list \<Rightarrow> ustr \<Rightarrow> json \<Rightarrow> json" where
  "dict_get d k dflt = (case map_of d k of None \<Rightarrow> dflt | Some v \<Rightarrow> v)"

fun dict_set :: "(ustr \<times> json) list \<Rightarrow> ustr \<Rightarrow> json \<Rightarrow> (ustr \<times> json) list" where
  "dict_set [] k v = [(k, v)]"
| "dict_set (p # ps) k v = (if fst p = k then (k, v) # ps else p # dict_set ps k v)"

definition dict_pop :: "(ustr \<times> json) list \<Rightarrow> ustr \<Rightarrow> (ustr \<times> json) list" where
  "dict_pop d k = filter (\<lambda>p. fst p \<noteq> k) d"

definition dict_update :: "(ustr \<times> json) list \<Rightarrow> (ustr \<times> json) list \<Rightarrow> (ustr \<times> json) list" where
  "dict_update d other = fold (\<lambda>p acc. dict_set acc (fst p) (snd p)) other d"

section \<open>The zzz to rrr mapper\<close>

text \<open>
  \<open>gen_uuid\<close> draws a random number on every call. The model takes the sequence of the
  strings it returns as \<open>ids\<close> and counts the calls: the call numbered \<open>n\<close> returns
  \<open>ids n\<close>. The package name (from the input path) and the version (from the clock) are
  parameters of \<open>work_zzz\<close>.
\<close>

record zzz_acc =
  cfd_professions :: "json list"
  cfd_ancestries :: "json list"
  cfd_communities :: "json list"
  cfd_domains :: "json list"
  cfd_variants :: "json list"
  out_profession :: "json list"
  out_ancestry :: "json list"
  out_community :: "json list"
  out_subclass :: "json list"
  out_domain :: "json list"
  out_variant :: "json list"

definition empty_acc :: zzz_acc where
  "empty_acc =
     \<lparr>cfd_professions = [], cfd_ancestries = [], cfd_communities = [], cfd_domains = [],
      cfd_variants = [], out_profession = [], out_ancestry = [], out_community = [], out_subclass = [],
      out_domain = [], out_variant = []\<rparr>"

text \<open>\<open>if x not in xs: xs.append(x)\<close>\<close>

definition add_unique :: "json \<Rightarrow> json list \<Rightarrow> json list" where
  "add_unique x xs = (if py_in x xs then xs else xs @ [x])"

definition normalise_domain :: "ustr \<Rightarrow> ustr" where
  "normalise_domain s =
     replace [38] [43] (replace [32] [] (replace [44] [43] (replace [65292] [43]
       (replace [21644] [43] (replace [38] [43] s)))))"

definition zzz_profession ::
  "py_env \<Rightarrow> (ustr \<times> json) list \<Rightarrow> (ustr \<times> json) list \<Rightarrow> py_error + (ustr \<times> json) list" where
  "zzz_profession u d dict_in =
     ebind (str_of (dict_get d K_domain (JStr []))) (\<lambda>s.
       let domain_parts = split_chr 43 (normalise_domain s) in
       ebind (py_int u (dict_get d K_init_hp (JStr []))) (\<lambda>hp.
       ebind (py_int u (dict_get d K_init_evasion (JStr []))) (\<lambda>ev.
         Inr (dict_in @
           [(K_domain1, JStr (if length domain_parts > 0 then domain_parts ! 0 else [])),
            (K_domain2, JStr (if length domain_parts > 1 then domain_parts ! 1 else [])),
            (K_start_hp, JInt hp),
            (K_start_evasion, JInt ev),
            (K_start_items, dict_get d K_init_items (JStr [32])),
            (K_intro, dict_get d K_intro (JStr S_NA)),
            (K_hope, dict_get d K_hope (JStr [])),
            (K_class_feature, dict_get d K_class_feature (JStr [])),
            (K_imageUrl, JStr [])]))))"

definition ancestry_features :: "ustr \<Rightarrow> ustr list" where
  "ancestry_features s = split_chr 10 (replace [10, 10] [10] (replace [58] [65306] s))"

text \<open>
  The ancestry branch emits two records. The first keeps the identifier drawn at the
  top of the loop body, the second draws its own after \<open>features[1]\<close> has been read.
\<close>

definition zzz_ancestry ::
  "(nat \<Rightarrow> ustr) \<Rightarrow> nat \<Rightarrow> (ustr \<times> json) list \<Rightarrow> json \<Rightarrow> (ustr \<times> json) list
     \<Rightarrow> py_error + (ustr \<times> json) list \<times> (ustr \<times> json) list" where
  "zzz_ancestry ids n d name' dict_in =
     ebind (str_of (dict_get d K_desc (JStr []))) (\<lambda>s.
       let features = ancestry_features s in
       ebind (py_index features 0) (\<lambda>line0.
       let feature = split_chr 65306 line0 in
       ebind (py_index feature 0) (\<lambda>f0.
       ebind (py_index feature 1) (\<lambda>e0.
       ebind (py_index features 1) (\<lambda>line1.
       let feature' = split_chr 65306 line1 in
       ebind (py_index feature' 0) (\<lambda>f1.
       ebind (py_index feature' 1) (\<lambda>e1.
         Inr (dict_set dict_in K_name (JStr f0) @
                [(K_race, name'),
                 (K_intro, dict_get d K_intro (JStr S_NA)),
                 (K_effect, JStr e0),
                 (K_category, JInt 1),
                 (K_imageUrl, JStr [])],
              [(K_id, JStr (ids (Suc n))),
               (K_name, JStr f1),
               (K_race, name'),
               (K_intro, dict_get d K_intro (JStr S_NA)),
               (K_effect, JStr e1),
               (K_category, JInt 2),
               (K_imageUrl, JStr [])]))))))))"

definition zzz_community ::
  "(ustr \<times> json) list \<Rightarrow> (ustr \<times> json) list \<Rightarrow> py_error + (ustr \<times> json) list" where
  "zzz_community d dict_in =
     (let feature = dict_get d K_desc (JStr []) in
      ebind (py_contains feature 65306) (\<lambda>has.
      ebind (if has
             then ebind (str_of feature) (\<lambda>s.
                    Inr (JStr (fst (split_once 65306 s)), JStr (snd (split_once 65306 s))))
             else Inr (feature, JStr [])) (\<lambda>(f_name, f_desc).
        Inr (dict_in @
          [(K_trait, f_name),
           (K_intro, dict_get d K_intro (JStr S_NA)),
           (K_desc, f_desc),
           (K_imageUrl, JStr [])]))))"

definition tier_to_rrr :: "ustr \<Rightarrow> ustr" where
  "tier_to_rrr s =
     replace S_mastery S_master (replace S_advanced S_specialised (replace S_basic S_foundation s))"

definition zzz_subclass ::
  "(ustr \<times> json) list \<Rightarrow> json \<Rightarrow> (ustr \<times> json) list \<Rightarrow> py_error + (ustr \<times> json) list" where
  "zzz_subclass d name' dict_in =
     ebind (py_contains name' 45) (\<lambda>has.
     ebind (if has
            then ebind (str_of name') (\<lambda>s.
                   ebind (py_index (split_chr 45 s) 0) (\<lambda>p. Inr (JStr p)))
            else Inr name') (\<lambda>sub.
     ebind (str_of (dict_get d K_level (JStr []))) (\<lambda>lv.
       let cast = dict_get d K_cast_attr (JStr []) in
       Inr (dict_in @
         [(K_desc, dict_get d K_desc (JStr [])),
          (K_parent, dict_get d K_parent (JStr [])),
          (K_subclass, sub),
          (K_level, JStr (tier_to_rrr lv)),
          (K_cast, if py_truthy cast then cast else JStr S_no_cast),
          (K_imageUrl, JStr [])]))))"

definition zzz_domain ::
  "py_env \<Rightarrow> (ustr \<times> json) list \<Rightarrow> (ustr \<times> json) list \<Rightarrow> py_error + (ustr \<times> json) list" where
  "zzz_domain u d dict_in =
     ebind (py_int u (dict_get d K_level (JStr []))) (\<lambda>lv.
       let recall = dict_get d K_recall (JStr []) in
       ebind (str_of recall) (\<lambda>s.
       ebind (if py_isdigit u s then ebind (py_int u recall) (\<lambda>i. Inr (JInt i))
              else Inr recall) (\<lambda>recall'.
         Inr (dict_in @
           [(K_domain, dict_get d K_domain (JStr [])),
            (K_level, JInt lv),
            (K_attr, dict_get d K_attr (JStr [])),
            (K_recall, recall'),
            (K_desc, dict_get d K_desc (JStr [])),
            (K_imageUrl, JStr [])]))))"

text \<open>
  The catch-all branch writes into the input record \<open>d\<close> before it copies it: the pair
  it returns is the input record as the call leaves it and the emitted record.
\<close>

definition item_dict :: "ustr list \<Rightarrow> (ustr \<times> json) list" where
  "item_dict attr_parts =
     fold (\<lambda>i acc. dict_set acc (S_item @ show_nat i) (JStr (attr_parts ! i)))
       [0 ..< length attr_parts] []"

definition zzz_variant ::
  "(ustr \<times> json) list \<Rightarrow> (ustr \<times> json) list
     \<Rightarrow> py_error + (ustr \<times> json) list \<times> (ustr \<times> json) list" where
  "zzz_variant d dict_in =
     (let info = dict_get d K_brief (JStr []) in
      ebind (if py_truthy info then ebind (str_of info) (\<lambda>s. Inr (split_chr 47 s))
             else Inr []) (\<lambda>attr_parts.
        let feat = dict_get d K_trait (JStr []);
            d' = dict_set (dict_set d K_effect feat) K_brief (JDict (item_dict attr_parts))
        in Inr (d', dict_update dict_in d')))"

text \<open>
  One pass of the loop body on the record \<open>d\<close>, from the accumulators and the number
  of identifiers drawn so far. The first component is \<open>d\<close> as the pass leaves it.
\<close>

definition zzz_record ::
  "py_env \<Rightarrow> (nat \<Rightarrow> ustr) \<Rightarrow> json \<Rightarrow> zzz_acc \<times> nat \<Rightarrow> json \<times> (py_error + zzz_acc \<times> nat)" where
  "zzz_record u ids rec st =
     (case rec of
        JDict d \<Rightarrow>
          (let acc = fst st; n = snd st;
               type' = dict_get d K_type (JStr []);
               name' = dict_get d K_name (JStr []);
               dict_in = [(K_id, JStr (ids n)), (K_name, name')]
           in if type' = JStr S_profession then
                (rec, ebind (zzz_profession u d dict_in) (\<lambda>r.
                   Inr (acc\<lparr>cfd_professions := add_unique name' (cfd_professions acc),
                             out_profession := out_profession acc @ [JDict r]\<rparr>, Suc n)))
              else if type' = JStr S_ancestry then
                (rec, ebind (zzz_ancestry ids n d name' dict_in) (\<lambda>(r1, r2).
                   Inr (acc\<lparr>cfd_ancestries := add_unique name' (cfd_ancestries acc),
                             out_ancestry := out_ancestry acc @ [JDict r1, JDict r2]\<rparr>, Suc (Suc n))))
              else if type' = JStr S_community then
                (rec, ebind (zzz_community d dict_in) (\<lambda>r.
                   Inr (acc\<lparr>cfd_communities := add_unique name' (cfd_communities acc),
                             out_community := out_community acc @ [JDict r]\<rparr>, Suc n)))
              else if type' = JStr S_subclass then
                (rec, ebind (zzz_subclass d name' dict_in) (\<lambda>r.
                   Inr (acc\<lparr>out_subclass := out_subclass acc @ [JDict r]\<rparr>, Suc n)))
              else if type' = JStr S_domain_card then
                (rec, ebind (zzz_domain u d dict_in) (\<lambda>r.
                   Inr (acc\<lparr>cfd_domains :=
                               add_unique (dict_get d K_domain (JStr [])) (cfd_domains acc),
                             out_domain := out_domain acc @ [JDict r]\<rparr>, Suc n)))
              else
                (case zzz_variant d dict_in of
                   Inl e \<Rightarrow> (rec, Inl e)
                 | Inr (d', r) \<Rightarrow>
                     (JDict d',
                      Inr (acc\<lparr>cfd_variants := add_unique type' (cfd_variants acc),
                                out_variant := out_variant acc @ [JDict r]\<rparr>, Suc n))))
      | _ \<Rightarrow> (rec, Inl AttributeError))"

fun zzz_loop ::
  "py_env \<Rightarrow> (nat \<Rightarrow> ustr) \<Rightarrow> json list \<Rightarrow> zzz_acc \<times> nat
     \<Rightarrow> json list \<times> (py_error + zzz_acc \<times> nat)" where
  "zzz_loop u ids [] st = ([], Inr st)"
| "zzz_loop u ids (rec # rest) st =
     (case zzz_record u ids rec st of
        (rec', Inl e) \<Rightarrow> (rec' # rest, Inl e)
      | (rec', Inr st') \<Rightarrow>
          (case zzz_loop u ids rest st' of (rest', r) \<Rightarrow> (rec' # rest', r)))"

definition package_json :: "ustr \<Rightarrow> ustr \<Rightarrow> zzz_acc \<Rightarrow> json" where
  "package_json name version acc =
     JDict
       [(K_pkg_name, JStr name),
        (K_version, JStr version),
        (K_description, JStr []),
        (K_author, JStr []),
        (K_cfd, JDict
           [(K_professions, JList (cfd_professions acc)),
            (K_ancestries, JList (cfd_ancestries acc)),
            (K_communities, JList (cfd_communities acc)),
            (K_domains, JList (cfd_domains acc)),
            (K_variants, JList (cfd_variants acc))]),
        (K_profession, JList (out_profession acc)),
        (K_ancestry, JList (out_ancestry acc)),
        (K_community, JList (out_community acc)),
        (K_subclass_bucket, JList (out_subclass acc)),
        (K_domain_bucket, JList (out_domain acc)),
        (K_variant, JList (out_variant acc))]"

text \<open>
  \<open>work_zzz\<close> returns the input list as the call leaves it together with the package,
  or with the exception that ended the call.
\<close>

definition work_zzz ::
  "py_env \<Rightarrow> (nat \<Rightarrow> ustr) \<Rightarrow> ustr \<Rightarrow> ustr \<Rightarrow> json list \<Rightarrow> json list \<times> (py_error + json)" where
  "work_zzz u ids name version data =
     (case zzz_loop u ids data (empty_acc, 0) of
        (data', Inl e) \<Rightarrow> (data', Inl e)
      | (data', Inr st) \<Rightarrow> (data', Inr (package_json name version (fst st))))"

section \<open>The rrr to zzz mapper\<close>

definition tier_to_zzz :: "ustr \<Rightarrow> ustr" where
  "tier_to_zzz s =
     replace S_master S_mastery (replace S_specialised S_advanced (replace S_foundation S_basic s))"

text \<open>\<open>a + sep + b\<close> for a separator of one code point.\<close>

definition concat3 :: "json \<Rightarrow> nat \<Rightarrow> json \<Rightarrow> py_error + ustr" where
  "concat3 a c b =
     ebind (str_operand a) (\<lambda>x. ebind (str_operand b) (\<lambda>y. Inr (x @ c # y)))"

definition rrr_profession :: "(ustr \<times> json) list \<Rightarrow> py_error + (ustr \<times> json) list" where
  "rrr_profession d =
     ebind (concat3 (dict_get d K_domain1 (JStr [])) 43 (dict_get d K_domain2 (JStr []))) (\<lambda>dom.
       Inr [(K_name, dict_get d K_name (JStr [])),
            (K_orig, dict_get d K_id (JStr [])),
            (K_type, JStr S_profession),
            (K_domain, JStr dom),
            (K_init_evasion, dict_get d K_start_evasion (JStr [])),
            (K_init_hp, dict_get d K_start_hp (JStr [])),
            (K_hope, dict_get d K_hope (JStr [])),
            (K_class_feature, dict_get d K_class_feature (JStr [])),
            (K_background, dict_get d K_background (JList [])),
            (K_relation, dict_get d K_relation (JList [])),
            (K_intro, dict_get d K_intro (JStr []))])"

definition rrr_community :: "(ustr \<times> json) list \<Rightarrow> py_error + (ustr \<times> json) list" where
  "rrr_community d =
     ebind (concat3 (dict_get d K_trait (JStr [])) 65306 (dict_get d K_desc (JStr []))) (\<lambda>desc.
       Inr [(K_name, dict_get d K_name (JStr [])),
            (K_orig, dict_get d K_id (JStr [])),
            (K_type, JStr S_community),
            (K_intro, dict_get d K_intro (JStr [])),
            (K_temper, JStr []),
            (K_desc, JStr desc)])"

definition rrr_subclass :: "(ustr \<times> json) list \<Rightarrow> py_error + (ustr \<times> json) list" where
  "rrr_subclass d =
     ebind (str_of (dict_get d K_level (JStr []))) (\<lambda>s.
       let lv = tier_to_zzz s in
       ebind (concat3 (dict_get d K_subclass (JStr [])) 45 (JStr lv)) (\<lambda>nm.
         Inr [(K_name, JStr nm),
              (K_orig, JStr []),
              (K_type, JStr S_subclass),
              (K_parent, dict_get d K_parent (JStr [])),
              (K_level, JStr lv),
              (K_cast_attr, dict_get d K_cast (JStr [])),
              (K_desc, dict_get d K_desc (JStr []))]))"

definition rrr_domain :: "py_env \<Rightarrow> (ustr \<times> json) list \<Rightarrow> (ustr \<times> json) list" where
  "rrr_domain u d =
     [(K_name, dict_get d K_name (JStr [])),
      (K_orig, dict_get d K_id (JStr [])),
      (K_type, JStr S_domain_card),
      (K_domain, dict_get d K_domain (JStr [])),
      (K_level, JStr (py_str u (dict_get d K_level (JStr [])))),
      (K_attr, dict_get d K_attr (JStr [])),
      (K_recall, JStr (py_str u (dict_get d K_recall (JStr [])))),
      (K_desc, dict_get d K_desc (JStr []))]"

definition join_items :: "py_env \<Rightarrow> (ustr \<times> json) list \<Rightarrow> ustr" where
  "join_items u items =
     fold (\<lambda>p attr. if py_truthy (snd p) then attr @ py_str u (snd p) @ [47] else attr) items []"

definition truthy_fields :: "(ustr \<times> json) list \<Rightarrow> (ustr \<times> json) list" where
  "truthy_fields d =
     fold (\<lambda>p dict_in. if py_truthy (snd p) then dict_set dict_in (fst p) (snd p) else dict_in) d []"

definition rrr_variant :: "py_env \<Rightarrow> (ustr \<times> json) list \<Rightarrow> py_error + (ustr \<times> json) list" where
  "rrr_variant u d =
     (let d1 = dict_pop (dict_pop d K_id) K_imageUrl in
      case dict_get d1 K_brief (JStr []) of
        JDict items \<Rightarrow>
          (let attr = join_items u items;
               d2 = dict_set d1 K_brief (JStr (if attr \<noteq> [] then butlast attr else []))
           in Inr (truthy_fields d2))
      | _ \<Rightarrow> Inl AttributeError)"

text \<open>
  \<open>race_dict\<close> is keyed by the ancestry name, which any hashable value can be: a list or
  a dict raises \<open>TypeError\<close>, and two keys are the same key when they are equal.
\<close>

type_synonym race_dict = "(json \<times> (ustr \<times> json) list) list"

definition hashable :: "json \<Rightarrow> bool" where
  "hashable v = (case v of JList xs \<Rightarrow> False | JDict kvs \<Rightarrow> False | _ \<Rightarrow> True)"

fun race_get :: "race_dict \<Rightarrow> json \<Rightarrow> (ustr \<times> json) list option" where
  "race_get [] k = None"
| "race_get (p # ps) k = (if py_eq (fst p) k then Some (snd p) else race_get ps k)"

fun race_set :: "race_dict \<Rightarrow> json \<Rightarrow> (ustr \<times> json) list \<Rightarrow> race_dict" where
  "race_set [] k r = [(k, r)]"
| "race_set (p # ps) k r = (if py_eq (fst p) k then (fst p, r) # ps else p # race_set ps k r)"

definition rrr_ancestry :: "(ustr \<times> json) list \<Rightarrow> race_dict \<Rightarrow> py_error + race_dict" where
  "rrr_ancestry d races =
     (let race_name = dict_get d K_race (JStr []) in
      if \<not> hashable race_name then Inl TypeError
      else
        (case race_get races race_name of
           Some r \<Rightarrow>
             ebind (str_operand (dict_get r K_desc (JStr []))) (\<lambda>old.
             ebind (concat3 (dict_get d K_name (JStr [])) 65306 (dict_get d K_effect (JStr []))) (\<lambda>line.
               Inr (race_set races race_name (dict_set r K_desc (JStr (old @ 10 # line))))))
         | None \<Rightarrow>
             ebind (concat3 (dict_get d K_name (JStr [])) 65306 (dict_get d K_effect (JStr []))) (\<lambda>line.
               Inr (race_set races race_name
                     [(K_name, race_name),
                      (K_orig, JStr []),
                      (K_type, JStr S_ancestry),
                      (K_intro, dict_get d K_intro (JStr [])),
                      (K_desc, JStr line)]))))"

text \<open>
  The body of the innermost loop for one entry \<open>rec\<close> of the bucket \<open>key\<close>. The state is
  the output list and \<open>race_dict\<close>. An entry that is not a dict has no \<open>get\<close> and no
  two-argument \<open>pop\<close>: the first access raises \<open>AttributeError\<close>, except that a list in
  the variant bucket has a \<open>pop\<close>, which refuses the key with \<open>TypeError\<close>.
\<close>

definition rrr_record ::
  "py_env \<Rightarrow> ustr \<Rightarrow> json \<Rightarrow> json list \<times> race_dict \<Rightarrow> py_error + json list \<times> race_dict" where
  "rrr_record u key rec st =
     (case rec of
        JDict d \<Rightarrow>
          (let dict_out = fst st; races = snd st in
           if key = K_profession then
             ebind (rrr_profession d) (\<lambda>r. Inr (dict_out @ [JDict r], races))
           else if key = K_ancestry then
             ebind (rrr_ancestry d races) (\<lambda>races'. Inr (dict_out, races'))
           else if key = K_community then
             ebind (rrr_community d) (\<lambda>r. Inr (dict_out @ [JDict r], races))
           else if key = K_subclass_bucket then
             ebind (rrr_subclass d) (\<lambda>r. Inr (dict_out @ [JDict r], races))
           else if key = K_domain_bucket then
             Inr (dict_out @ [JDict (rrr_domain u d)], races)
           else if key = K_variant then
             ebind (rrr_variant u d) (\<lambda>r. Inr (dict_out @ [JDict r], races))
           else Inr (dict_out @ [JDict []], races))
      | JList xs \<Rightarrow> if key = K_variant then Inl TypeError else Inl AttributeError
      | _ \<Rightarrow> Inl AttributeError)"

fun rrr_records ::
  "py_env \<Rightarrow> ustr \<Rightarrow> json list \<Rightarrow> json list \<times> race_dict \<Rightarrow> py_error + json list \<times> race_dict" where
  "rrr_records u key [] st = Inr st"
| "rrr_records u key (rec # rest) st =
     ebind (rrr_record u key rec st) (rrr_records u key rest)"

text \<open>
  \<open>bucket_entries da\<close> is what \<open>for d in da\<close> runs over when \<open>da\<close> is truthy: a dict is
  wrapped into a list first, a string yields its characters, a number is not iterable.
\<close>

definition bucket_entries :: "json \<Rightarrow> py_error + json list" where
  "bucket_entries da =
     (if \<not> py_truthy da then Inr []
      else case da of
        JDict kvs \<Rightarrow> Inr [da]
      | JList xs \<Rightarrow> Inr xs
      | JStr s \<Rightarrow> Inr (map (\<lambda>c. JStr [c]) s)
      | _ \<Rightarrow> Inl TypeError)"

definition bucket_keys :: "ustr list" where
  "bucket_keys =
     [K_profession, K_ancestry, K_community, K_subclass_bucket, K_domain_bucket, K_variant]"

fun rrr_keys ::
  "py_env \<Rightarrow> (ustr \<times> json) list \<Rightarrow> ustr list \<Rightarrow> json list \<times> race_dict
     \<Rightarrow> py_error + json list \<times> race_dict" where
  "rrr_keys u dat [] st = Inr st"
| "rrr_keys u dat (key # keys) st =
     ebind (bucket_entries (dict_get dat key JNull)) (\<lambda>da.
     ebind (rrr_records u key da st) (rrr_keys u dat keys))"

definition rrr_package ::
  "py_env \<Rightarrow> json \<Rightarrow> json list \<times> race_dict \<Rightarrow> py_error + json list \<times> race_dict" where
  "rrr_package u dat st =
     (case dat of JDict d \<Rightarrow> rrr_keys u d bucket_keys st | _ \<Rightarrow> Inl AttributeError)"

fun rrr_packages ::
  "py_env \<Rightarrow> json list \<Rightarrow> json list \<times> race_dict \<Rightarrow> py_error + json list \<times> race_dict" where
  "rrr_packages u [] st = Inr st"
| "rrr_packages u (dat # rest) st = ebind (rrr_package u dat st) (rrr_packages u rest)"

definition work_rrr :: "py_env \<Rightarrow> json list \<Rightarrow> py_error + json list" where
  "work_rrr u data =
     ebind (rrr_packages u data ([], [])) (\<lambda>st.
       Inr (fst st @ map (\<lambda>p. JDict (snd p)) (snd st)))"

section \<open>Reading the input records\<close>

text \<open>
  The type, name and domain tag the loop body of \<open>work_zzz\<close> reads from a record, and
  the two entries every emitted record starts from.
\<close>

definition rec_type :: "json \<Rightarrow> json" where
  "rec_type rec = (case rec of JDict d \<Rightarrow> dict_get d K_type (JStr []) | _ \<Rightarrow> JNull)"

definition rec_name :: "json \<Rightarrow> json" where
  "rec_name rec = (case rec of JDict d \<Rightarrow> dict_get d K_name (JStr []) | _ \<Rightarrow> JNull)"

definition rec_domain :: "json \<Rightarrow> json" where
  "rec_domain rec = (case rec of JDict d \<Rightarrow> dict_get d K_domain (JStr []) | _ \<Rightarrow> JNull)"

definition is_variant :: "json \<Rightarrow> bool" where
  "is_variant rec =
     (rec_type rec \<notin> set [JStr S_profession, JStr S_ancestry, JStr S_community, JStr S_subclass, JStr S_domain_card])"

definition base_dict :: "(nat \<Rightarrow> ustr) \<Rightarrow> nat \<Rightarrow> json \<Rightarrow> (ustr \<times> json) list" where
  "base_dict ids n rec = [(K_id, JStr (ids n)), (K_name, rec_name rec)]"


text \<open>Reading a package: a top-level field, a list under \<open>customFieldDefinitions\<close>, a bucket.\<close>

definition pkg_field :: "json \<Rightarrow> ustr \<Rightarrow> json" where
  "pkg_field pkg k = (case pkg of JDict m \<Rightarrow> dict_get m k JNull | _ \<Rightarrow> JNull)"

definition list_of :: "json \<Rightarrow> json list" where
  "list_of v = (case v of JList xs \<Rightarrow> xs | _ \<Rightarrow> [])"

definition cfd_list :: "json \<Rightarrow> ustr \<Rightarrow> json list" where
  "cfd_list pkg k = list_of (pkg_field (pkg_field pkg K_cfd) k)"

definition bucket :: "json \<Rightarrow> ustr \<Rightarrow> json list" where
  "bucket pkg k = list_of (pkg_field pkg k)"

definition of_type :: "ustr \<Rightarrow> json list \<Rightarrow> json list" where
  "of_type t data = filter (\<lambda>r. rec_type r = JStr t) data"

section \<open>Order of first appearance\<close>

text \<open>
  \<open>first_seen xs\<close> keeps, of the values of \<open>xs\<close>, the first of every group of equal ones,
  in the order of \<open>xs\<close>; \<open>no_repeat\<close> says that no two entries of a list are equal.
\<close>

fun first_seen :: "json list \<Rightarrow> json list" where
  "first_seen [] = []"
| "first_seen (x # xs) = x # filter (\<lambda>y. \<not> py_eq x y) (first_seen xs)"

definition no_repeat :: "json list \<Rightarrow> bool" where
  "no_repeat xs = distinct (map norm_json xs)"

section \<open>A concrete environment\<close>

text \<open>
  For evaluating the converters on concrete records: an environment that knows no
  digit and no white space beyond ASCII and has the default limit of 4300 digits, and
  identifiers \<open>0\<close>, \<open>1\<close>, \<open>2\<close>, ... in the order they are drawn.
\<close>

definition ascii_env :: py_env where
  "ascii_env =
     \<lparr>uni_decimal = (\<lambda>c. None), uni_digit = (\<lambda>c. False), uni_space = (\<lambda>c. False),
      container_str = (\<lambda>v. []), int_max_str_digits = 4300\<rparr>"

definition seq_ids :: "nat \<Rightarrow> ustr" where
  "seq_ids n = show_nat n"

section \<open>Auxiliary predicates of the proofs\<close>

text \<open>The five deduplication lists after a run over \<open>data\<close>, from their value before it.\<close>

definition cfd_step :: "json list \<Rightarrow> zzz_acc \<Rightarrow> zzz_acc \<Rightarrow> bool" where
  "cfd_step data acc acc' \<longleftrightarrow>
     cfd_professions acc' = fold add_unique (map rec_name (of_type S_profession data)) (cfd_professions acc) \<and>
     cfd_ancestries acc' = fold add_unique (map rec_name (of_type S_ancestry data)) (cfd_ancestries acc) \<and>
     cfd_communities acc' = fold add_unique (map rec_name (of_type S_community data)) (cfd_communities acc) \<and>
     cfd_domains acc' = fold add_unique (map rec_domain (of_type S_domain_card data)) (cfd_domains acc) \<and>
     cfd_variants acc' = fold add_unique (map rec_type (filter is_variant data)) (cfd_variants acc)"

section \<open>Sample records\<close>

definition demo_profession :: "ustr \<Rightarrow> json" where
  "demo_profession nm =
     JDict [(K_name, JStr nm), (K_type, JStr S_profession), (K_domain, JStr [88, 38, 89]),
            (K_init_hp, JStr [54]), (K_init_evasion, JInt 10)]"

definition demo_community :: json where
  "demo_community =
     JDict [(K_name, JStr [67]), (K_type, JStr S_community), (K_desc, JStr [116, 65306, 100])]"

definition demo_variant :: json where
  "demo_variant =
     JDict [(K_name, JStr [86]), (K_type, JStr [87]), (K_brief, JStr [97, 47, 98])]"

definition demo_domain :: json where
  "demo_domain =
     JDict [(K_name, JStr [70]), (K_type, JStr S_domain_card), (K_domain, JStr [68]),
            (K_level, JStr [49]), (K_recall, JStr [50])]"

definition demo_data :: "json list" where
  "demo_data = [demo_profession [66], demo_variant, demo_profession [65], demo_profession [66]]"

section \<open>What the catch-all branch writes into its input\<close>

text \<open>
  \<open>written rec\<close> is a record of the catch-all branch after \<open>work_zzz\<close> has passed over it:
  the key \<open>K_effect\<close> holds the former value of \<open>K_trait\<close> and \<open>K_brief\<close> holds the positional
  mapping. A record of one of the five named types is left as it was.
\<close>

definition brief_parts :: "(ustr \<times> json) list \<Rightarrow> ustr list" where
  "brief_parts d =
     (case dict_get d K_brief (JStr []) of
        JStr s \<Rightarrow> if s = [] then [] else split_chr 47 s
      | _ \<Rightarrow> [])"

definition written :: "json \<Rightarrow> json" where
  "written rec =
     (case rec of
        JDict d \<Rightarrow>
          if is_variant rec
          then JDict (dict_set (dict_set d K_effect (dict_get d K_trait (JStr [])))
                        K_brief (JDict (item_dict (brief_parts d))))
          else rec
      | _ \<Rightarrow> rec)"

section \<open>Where the identifiers of the emitted records come from\<close>

text \<open>
  \<open>minted ids rs ks\<close>: the records \<open>rs\<close> carry, in this order, the strings returned by
  the calls of \<open>gen_uuid\<close> numbered \<open>ks\<close>. \<open>variant_id ids k rec out\<close>: the record \<open>out\<close>
  emitted for the input record \<open>rec\<close> by the catch-all branch carries the string of the
  call numbered \<open>k\<close>, unless \<open>rec\<close> has an \<open>id\<close> key of its own, whose value it then
  carries. \<open>ids_inv\<close> is the invariant of the loop.
\<close>

definition id_of :: "json \<Rightarrow> json option" where
  "id_of r = (case r of JDict d \<Rightarrow> map_of d K_id | _ \<Rightarrow> None)"

definition minted :: "(nat \<Rightarrow> ustr) \<Rightarrow> json list \<Rightarrow> nat list \<Rightarrow> bool" where
  "minted ids rs ks = (map id_of rs = map (\<lambda>k. Some (JStr (ids k))) ks)"

definition variant_id :: "(nat \<Rightarrow> ustr) \<Rightarrow> nat \<Rightarrow> json \<Rightarrow> json \<Rightarrow> bool" where
  "variant_id ids k rec out =
     (case rec of
        JDict d \<Rightarrow>
          if K_id \<in> set (map fst d)
          then list_ex (\<lambda>p. fst p = K_id \<and> id_of out = Some (snd p)) d
          else id_of out = Some (JStr (ids k))
      | _ \<Rightarrow> False)"

definition variant_ids :: "(nat \<Rightarrow> ustr) \<Rightarrow> json list \<Rightarrow> json list \<Rightarrow> nat list \<Rightarrow> bool" where
  "variant_ids ids recs outs ks =
     (length outs = length recs \<and>
      list_all2 (\<lambda>p k. variant_id ids k (fst p) (snd p)) (zip recs outs) ks)"

definition ids_inv :: "(nat \<Rightarrow> ustr) \<Rightarrow> json list \<Rightarrow> zzz_acc \<Rightarrow> nat \<Rightarrow> bool" where
  "ids_inv ids vs acc n =
     (\<exists>kp ka kc ks kd kv.
        distinct (kp @ ka @ kc @ ks @ kd @ kv) \<and>
        (\<forall>k \<in> set (kp @ ka @ kc @ ks @ kd @ kv). k < n) \<and>
        minted ids (out_profession acc) kp \<and>
        minted ids (out_ancestry acc) ka \<and>
        minted ids (out_community acc) kc \<and>
        minted ids (out_subclass acc) ks \<and>
        minted ids (out_domain acc) kd \<and>
        variant_ids ids vs (out_variant acc) kv)"

text \<open>
  A weapon record of the catch-all branch, with the brief-info string of the
  specification's example (three parts, separated by \<open>/\<close>).
\<close>

definition demo_weapon :: "(ustr \<times> json) list" where
  "demo_weapon =
     [(K_name, JStr [38271, 21073]), (K_type, JStr [27494, 22120]),
      (K_brief, JStr [36817, 25112, 47, 29289, 29702, 47, 51, 28857])]"

definition demo_weapon_parts :: "ustr list" where
  "demo_weapon_parts = [[36817, 25112], [29289, 29702], [51, 28857]]"

section \<open>Decimal digits\<close>

text \<open>The number a string of ASCII digits denotes.\<close>

definition digits_val :: "ustr \<Rightarrow> nat" where
  "digits_val ds = foldl (\<lambda>a c. 10 * a + (c - 48)) 0 ds"

text \<open>
  The number a non-empty string of decimal digits of any script denotes, and the
  strings \<open>str()\<close> produces for a natural number: ASCII digits without a leading zero.
\<close>

definition decimal_value :: "py_env \<Rightarrow> ustr \<Rightarrow> nat" where
  "decimal_value u s = foldl (\<lambda>a c. 10 * a + the (decimal_val u c)) 0 s"

definition all_decimal :: "py_env \<Rightarrow> ustr \<Rightarrow> bool" where
  "all_decimal u s = (s \<noteq> [] \<and> list_all (\<lambda>c. decimal_val u c \<noteq> None) s)"

definition canonical_nat :: "ustr \<Rightarrow> bool" where
  "canonical_nat s =
     (s \<noteq> [] \<and> list_all (\<lambda>c. 48 \<le> c \<and> c \<le> 57) s \<and> (hd s = 48 \<longrightarrow> s = [48]))"

text \<open>A domain card whose recall cost is written with leading zeros.\<close>

definition demo_recall :: "ustr \<Rightarrow> (ustr \<times> json) list" where
  "demo_recall s =
     [(K_name, JStr [70]), (K_type, JStr S_domain_card), (K_domain, JStr [68]),
      (K_level, JStr [49]), (K_recall, JStr s)]"

text \<open>
  The recall field of the record \<open>work_zzz\<close> emits for a single domain card, and of
  the record \<open>work_rrr\<close> makes of it again; \<open>None\<close> when a call raises.
\<close>

definition recall_packed ::
  "py_env \<Rightarrow> (nat \<Rightarrow> ustr) \<Rightarrow> ustr \<Rightarrow> ustr \<Rightarrow> (ustr \<times> json) list \<Rightarrow> json option" where
  "recall_packed u ids name version d =
     (case snd (work_zzz u ids name version [JDict d]) of
        Inr pkg \<Rightarrow>
          (case bucket pkg K_domain_bucket of
             [JDict r] \<Rightarrow> map_of r K_recall
           | _ \<Rightarrow> None)
      | Inl e \<Rightarrow> None)"

definition recall_restored ::
  "py_env \<Rightarrow> (nat \<Rightarrow> ustr) \<Rightarrow> ustr \<Rightarrow> ustr \<Rightarrow> (ustr \<times> json) list \<Rightarrow> json option" where
  "recall_restored u ids name version d =
     (case snd (work_zzz u ids name version [JDict d]) of
        Inr pkg \<Rightarrow>
          (case work_rrr u [pkg] of
             Inr [JDict r] \<Rightarrow> map_of r K_recall
           | _ \<Rightarrow> None)
      | Inl e \<Rightarrow> None)"

section \<open>Malformed input\<close>

text \<open>
  \<open>colon_lines s\<close> are the lines of a description that contain a colon, ASCII or
  full-width. \<open>int_literal u s\<close> says that \<open>s\<close> is written as \<open>int()\<close> wants a number: once
  the white space at both ends and one sign in front are taken away, what is left splits
  at the underscores into groups of decimal digits, none of them empty, and has no more
  digits than the interpreter's limit. \<open>non_numeric\<close> holds of every other string, among
  them the empty string, a sign alone, white space alone, digits with white space or two
  underscores between them, and any string with a letter.
\<close>

definition has_colon :: "ustr \<Rightarrow> bool" where
  "has_colon l = (58 \<in> set l \<or> 65306 \<in> set l)"

definition colon_lines :: "ustr \<Rightarrow> ustr list" where
  "colon_lines s = filter has_colon (split_chr 10 s)"

definition rstrip :: "('a \<Rightarrow> bool) \<Rightarrow> 'a list \<Rightarrow> 'a list" where
  "rstrip P xs = rev (dropWhile P (rev xs))"

definition int_literal :: "py_env \<Rightarrow> ustr \<Rightarrow> bool" where
  "int_literal u s =
     (let core = rstrip (int_space u) (dropWhile (int_space u) s);
          body = (case core of c # cs \<Rightarrow> if c = 43 \<or> c = 45 then cs else core | [] \<Rightarrow> [])
      in list_all (\<lambda>g. g \<noteq> [] \<and> list_all (\<lambda>c. decimal_val u c \<noteq> None) g) (split_chr 95 body) \<and>
         \<not> over_limit u (length (filter (\<lambda>c. c \<noteq> 95) body)))"

definition non_numeric :: "py_env \<Rightarrow> ustr \<Rightarrow> bool" where
  "non_numeric u s = (\<not> int_literal u s)"

definition is_str :: "json \<Rightarrow> bool" where
  "is_str v = (case v of JStr s \<Rightarrow> True | _ \<Rightarrow> False)"

text \<open>
  An ancestry whose description has one feature line only, a profession whose starting
  health is not a number and whose starting evasion is a JSON number, a profession with
  the two the other way round, and a domain card whose level is not a number.
\<close>

definition demo_one_line :: "(ustr \<times> json) list" where
  "demo_one_line =
     [(K_name, JStr [69]), (K_type, JStr S_ancestry), (K_desc, JStr [97, 65306, 98])]"

definition demo_bad_hp :: "(ustr \<times> json) list" where
  "demo_bad_hp =
     [(K_name, JStr [65]), (K_type, JStr S_profession), (K_domain, JStr [88, 38, 89]),
      (K_init_hp, JStr [120]), (K_init_evasion, JInt 10)]"

definition demo_bad_evasion :: "(ustr \<times> json) list" where
  "demo_bad_evasion =
     [(K_name, JStr [65]), (K_type, JStr S_profession), (K_domain, JStr [88, 38, 89]),
      (K_init_hp, JInt 6), (K_init_evasion, JStr [49, 95, 95, 50])]"

definition demo_bad_level :: "(ustr \<times> json) list" where
  "demo_bad_level =
     [(K_name, JStr [70]), (K_type, JStr S_domain_card), (K_level, JStr [49, 32, 50])]"

section \<open>The order of the output of the rrr to zzz mapper\<close>











section \<open>The keyword extractor\<close>

text \<open>
  \<open>work\<close> of the keyword extractor removes four keys from every record it is given
  while it builds the summary. As for \<open>work_zzz\<close>, the model returns the input as the
  call leaves it together with the result.
\<close>

definition py_strip :: "py_env \<Rightarrow> ustr \<Rightarrow> ustr" where
  "py_strip u s = rev (dropWhile (is_space u) (rev (dropWhile (is_space u) s)))"

definition keyword_desc :: "py_env \<Rightarrow> (ustr \<times> json) list \<Rightarrow> ustr" where
  "keyword_desc u d =
     fold (\<lambda>p desc. if fst p \<noteq> K_name then desc @ fst p @ [58] @ py_str u (snd p) @ [10] else desc)
       d []"

definition keyword_record :: "py_env \<Rightarrow> json \<Rightarrow> json \<times> (py_error + json)" where
  "keyword_record u rec =
     (case rec of
        JDict d \<Rightarrow>
          (let keyword = dict_get d K_name (JStr []);
               d1 = dict_pop (dict_pop (dict_pop d K_orig) K_background) K_relation;
               typ = dict_get d1 K_type (JStr S_default_type);
               d2 = dict_pop d1 K_type
           in (JDict d2,
               ebind (if typ = JStr S_domain_card
                      then ebind (str_operand (dict_get d2 K_domain (JStr []))) (\<lambda>dm.
                             Inr (JStr (S_domain_card @ 45 # dm)))
                      else Inr typ) (\<lambda>category.
                 Inr (JDict
                        [(K_keyword, keyword),
                         (K_cat, category),
                         (K_description, JStr (py_strip u (keyword_desc u d2))),
                         (K_display, JStr S_normal)]))))
      | _ \<Rightarrow> (rec, Inl AttributeError))"

fun keyword_loop :: "py_env \<Rightarrow> json list \<Rightarrow> json list \<times> (py_error + json list)" where
  "keyword_loop u [] = ([], Inr [])"
| "keyword_loop u (rec # rest) =
     (case keyword_record u rec of
        (rec', Inl e) \<Rightarrow> (rec' # rest, Inl e)
      | (rec', Inr dic) \<Rightarrow>
          (case keyword_loop u rest of
             (rest', Inl e) \<Rightarrow> (rec' # rest', Inl e)
           | (rest', Inr lst) \<Rightarrow> (rec' # rest', Inr (dic # lst))))"

definition work :: "py_env \<Rightarrow> json \<Rightarrow> json \<times> (py_error + json list)" where
  "work u data =
     (case data of
        JDict d \<Rightarrow>
          (case keyword_loop u [data] of
             ([rec'], r) \<Rightarrow> (rec', r)
           | (recs, r) \<Rightarrow> (data, r))
      | JList xs \<Rightarrow> (case keyword_loop u xs of (xs', r) \<Rightarrow> (JList xs', r))
      | JStr s \<Rightarrow> (data, if s = [] then Inr [] else Inl AttributeError)
      | _ \<Rightarrow> (data, Inl TypeError))"

text \<open>
  The records a call of \<open>work\<close> passes over, a record without the four keys, and the
  absence of a key.
\<close>

definition records_of :: "json \<Rightarrow> json list" where
  "records_of data = (case data of JDict d \<Rightarrow> [data] | JList xs \<Rightarrow> xs | _ \<Rightarrow> [])"

definition stripped :: "json \<Rightarrow> json" where
  "stripped rec =
     (case rec of
        JDict d \<Rightarrow>
          JDict (dict_pop (dict_pop (dict_pop (dict_pop d K_orig) K_background) K_relation) K_type)
      | _ \<Rightarrow> rec)"

definition lacks :: "json \<Rightarrow> ustr \<Rightarrow> bool" where
  "lacks rec k = (case rec of JDict d \<Rightarrow> k \<notin> set (map fst d) | _ \<Rightarrow> True)"

definition demo_card :: json where
  "demo_card =
     JDict [(K_name, JStr [70]), (K_orig, JStr [102]), (K_type, JStr S_domain_card),
            (K_domain, JStr [68]), (K_desc, JStr [120])]"

section \<open>The rink exporter: environments\<close>

text \<open>
  The regular expression \<open>re.search\<close> is given has five parts: the two code points
  \<open>S_spend\<close>, white space (\<open>\s*\<close>), the group of decimal digits (\<open>\d+\<close>), white space again
  and the three code points \<open>S_fear_points\<close>. The matcher tries the start positions
  from the left and, at one position, the longest stretches first, giving back one code
  point at a time, as the backtracking engine does; its value is the group of the first
  match.
\<close>

definition is_decimal :: "py_env \<Rightarrow> nat \<Rightarrow> bool" where
  "is_decimal u c = (decimal_val u c \<noteq> None)"

definition match_lit :: "ustr \<Rightarrow> ustr \<Rightarrow> ustr option" where
  "match_lit lit s = (if take (length lit) s = lit then Some (drop (length lit) s) else None)"

definition greedy_counts :: "nat \<Rightarrow> (nat \<Rightarrow> bool) \<Rightarrow> ustr \<Rightarrow> nat list" where
  "greedy_counts lo P s = rev [lo ..< Suc (length (takeWhile P s))]"

fun first_some :: "('a \<Rightarrow> 'b option) \<Rightarrow> 'a list \<Rightarrow> 'b option" where
  "first_some f [] = None"
| "first_some f (x # xs) = (case f x of Some y \<Rightarrow> Some y | None \<Rightarrow> first_some f xs)"

definition match_phrase :: "ustr \<Rightarrow> ustr \<Rightarrow> py_env \<Rightarrow> ustr \<Rightarrow> ustr option" where
  "match_phrase a b u s =
     (case match_lit a s of
        None \<Rightarrow> None
      | Some r1 \<Rightarrow>
          first_some (\<lambda>i.
            first_some (\<lambda>j.
              first_some (\<lambda>k.
                case match_lit b (drop k (drop j (drop i r1))) of
                  None \<Rightarrow> None
                | Some rest \<Rightarrow> Some (take j (drop i r1)))
                (greedy_counts 0 (is_space u) (drop j (drop i r1))))
              (greedy_counts 1 (is_decimal u) (drop i r1)))
            (greedy_counts 0 (is_space u) r1))"

definition cost_match_at :: "py_env \<Rightarrow> ustr \<Rightarrow> ustr option" where
  "cost_match_at u s = match_phrase S_spend S_fear_points u s"

fun re_search :: "py_env \<Rightarrow> ustr \<Rightarrow> ustr option" where
  "re_search u [] = cost_match_at u []"
| "re_search u (c # cs) =
     (case cost_match_at u (c # cs) of Some g \<Rightarrow> Some g | None \<Rightarrow> re_search u cs)"

text \<open>\<open>for x in v\<close>: a list yields its elements, a dict its keys, a string its characters.\<close>

definition py_iter :: "json \<Rightarrow> py_error + json list" where
  "py_iter v =
     (case v of
        JList xs \<Rightarrow> Inr xs
      | JDict kvs \<Rightarrow> Inr (map (\<lambda>p. JStr (fst p)) kvs)
      | JStr s \<Rightarrow> Inr (map (\<lambda>c. JStr [c]) s)
      | _ \<Rightarrow> Inl TypeError)"

fun traverse :: "('a \<Rightarrow> py_error + 'b) \<Rightarrow> 'a list \<Rightarrow> py_error + 'b list" where
  "traverse f [] = Inr []"
| "traverse f (x # xs) = ebind (f x) (\<lambda>y. ebind (traverse f xs) (\<lambda>ys. Inr (y # ys)))"

definition env_trait :: "py_env \<Rightarrow> json \<Rightarrow> py_error + json" where
  "env_trait u trait =
     (case trait of
        JDict t \<Rightarrow>
          (let trait_name = dict_get t K_name (JStr []);
               trait_en = dict_get t K_orig (JStr []);
               name = (if py_truthy trait_en
                       then JStr (py_str u trait_name @ 32 # py_str u trait_en)
                       else trait_name)
           in ebind (str_operand (dict_get t K_trait_desc (JStr []))) (\<lambda>desc.
                let cost_match = re_search u desc in
                Inr (JDict
                       [(K_pkg_name, name),
                        (K_type_out, dict_get t K_type (JStr [])),
                        (K_fear, JBool (cost_match \<noteq> None)),
                        (K_cost, JStr (case cost_match of Some g \<Rightarrow> g | None \<Rightarrow> [48])),
                        (K_desc_out, JStr desc),
                        (K_qs, dict_get t K_trait_question (JStr []))])))
      | _ \<Rightarrow> Inl AttributeError)"

definition convert_environment :: "py_env \<Rightarrow> json \<Rightarrow> py_error + json" where
  "convert_environment u src =
     (case src of
        JDict s \<Rightarrow>
          ebind (py_iter (dict_get s K_trait (JList []))) (\<lambda>ts.
          ebind (traverse (env_trait u) ts) (\<lambda>traits.
            Inr (JDict
                   [(K_pkg_name, dict_get s K_name (JStr [])),
                    (K_nameEn, dict_get s K_original (JStr [])),
                    (K_rank_out, dict_get s K_rank (JStr [])),
                    (K_type_out, dict_get s K_kind (JStr [])),
                    (K_description, dict_get s K_intro (JStr [])),
                    (K_tendencies, dict_get s K_tendency (JStr [])),
                    (K_difficulty_out, dict_get s K_difficulty (JStr [])),
                    (K_enemies_out, dict_get s K_enemies (JStr [])),
                    (K_decoratorColor, JStr S_color_env),
                    (K_highlightBgColor, JStr S_color_bg),
                    (K_highlightTextColor, JStr S_color_text),
                    (K_imageSettings, JDict
                       [(K_src, JStr []), (K_width, JStr S_350), (K_height, JStr S_200),
                        (K_transform, JStr []), (K_hideBorder, JBool False)]),
                    (K_traits, JList traits)])))
      | _ \<Rightarrow> Inl AttributeError)"

text \<open>
  What the specification calls a description that matches the pattern: \<open>matches_at u t n\<close>
  says that \<open>t\<close> begins with the phrase, with the digits \<open>n\<close> as its number, and
  \<open>costs_at u s k n\<close> that the phrase stands in \<open>s\<close> after \<open>k\<close> code points.
\<close>

definition phrase_at :: "ustr \<Rightarrow> ustr \<Rightarrow> py_env \<Rightarrow> ustr \<Rightarrow> ustr \<Rightarrow> bool" where
  "phrase_at a b u t n =
     (\<exists>sp1 sp2 post.
        t = a @ sp1 @ n @ sp2 @ b @ post \<and>
        list_all (is_space u) sp1 \<and> n \<noteq> [] \<and> list_all (is_decimal u) n \<and>
        list_all (is_space u) sp2)"

definition matches_at :: "py_env \<Rightarrow> ustr \<Rightarrow> ustr \<Rightarrow> bool" where
  "matches_at u t n = phrase_at S_spend S_fear_points u t n"

definition costs_at :: "py_env \<Rightarrow> ustr \<Rightarrow> nat \<Rightarrow> ustr \<Rightarrow> bool" where
  "costs_at u s k n = (k \<le> length s \<and> matches_at u (drop k s) n)"

definition trait_description :: "json \<Rightarrow> ustr" where
  "trait_description trait =
     (case trait of
        JDict t \<Rightarrow> (case dict_get t K_trait_desc (JStr []) of JStr s \<Rightarrow> s | _ \<Rightarrow> [])
      | _ \<Rightarrow> [])"

definition fear_cost :: "py_env \<Rightarrow> json \<Rightarrow> json \<Rightarrow> bool" where
  "fear_cost u trait out =
     (((\<exists>k n. costs_at u (trait_description trait) k n) \<longrightarrow>
         pkg_field out K_fear = JBool True \<and>
         (\<exists>k n. costs_at u (trait_description trait) k n \<and> pkg_field out K_cost = JStr n \<and>
                (\<forall>k' n'. costs_at u (trait_description trait) k' n' \<longrightarrow> k \<le> k'))) \<and>
      (\<not> (\<exists>k n. costs_at u (trait_description trait) k n) \<longrightarrow>
         pkg_field out K_fear = JBool False \<and> pkg_field out K_cost = JStr [48]))"

text \<open>
  The environment of the specification's example: one trait that costs two fear points
  and one that costs none.
\<close>

definition demo_environment :: json where
  "demo_environment =
     JDict
       [(K_name, JStr [69]),
        (K_trait, JList
           [JDict [(K_name, JStr [97]),
                   (K_trait_desc, JStr [33457, 36153, 50, 24656, 24807, 28857, 35302, 21457])],
            JDict [(K_name, JStr [98]), (K_trait_desc, JStr [120])]])]"

section \<open>Round trip of a flat record\<close>


















section \<open>Basic facts\<close>

lemma ebind_simps [simp]: "ebind (Inl e) f = Inl e" "ebind (Inr v) f = f v"
  by (simp_all add: ebind_def)

lemma ebind_eq_Inr: "ebind x f = Inr y \<longleftrightarrow> (\<exists>v. x = Inr v \<and> f v = Inr y)"
  by (cases x) simp_all

lemma zzz_record_non_dict:
  "(\<And>d. rec \<noteq> JDict d) \<Longrightarrow> zzz_record u ids rec st = (rec, Inl AttributeError)"
  by (cases rec) (auto simp: zzz_record_def)

lemma zzz_record_profession:
  "rec = JDict d \<Longrightarrow> rec_type rec = JStr S_profession \<Longrightarrow>
   zzz_record u ids rec (acc, n) =
     (rec, ebind (zzz_profession u d (base_dict ids n rec)) (\<lambda>r.
        Inr (acc\<lparr>cfd_professions := add_unique (rec_name rec) (cfd_professions acc),
                  out_profession := out_profession acc @ [JDict r]\<rparr>, Suc n)))"
  by (simp add: zzz_record_def Let_def rec_type_def rec_name_def base_dict_def)

lemma zzz_record_ancestry:
  "rec = JDict d \<Longrightarrow> rec_type rec = JStr S_ancestry \<Longrightarrow>
   zzz_record u ids rec (acc, n) =
     (rec, ebind (zzz_ancestry ids n d (rec_name rec) (base_dict ids n rec)) (\<lambda>(r1, r2).
        Inr (acc\<lparr>cfd_ancestries := add_unique (rec_name rec) (cfd_ancestries acc),
                  out_ancestry := out_ancestry acc @ [JDict r1, JDict r2]\<rparr>, Suc (Suc n))))"
  by (simp add: zzz_record_def Let_def rec_type_def rec_name_def base_dict_def)

lemma zzz_record_community:
  "rec = JDict d \<Longrightarrow> rec_type rec = JStr S_community \<Longrightarrow>
   zzz_record u ids rec (acc, n) =
     (rec, ebind (zzz_community d (base_dict ids n rec)) (\<lambda>r.
        Inr (acc\<lparr>cfd_communities := add_unique (rec_name rec) (cfd_communities acc),
                  out_community := out_community acc @ [JDict r]\<rparr>, Suc n)))"
  by (simp add: zzz_record_def Let_def rec_type_def rec_name_def base_dict_def)

lemma zzz_record_subclass:
  "rec = JDict d \<Longrightarrow> rec_type rec = JStr S_subclass \<Longrightarrow>
   zzz_record u ids rec (acc, n) =
     (rec, ebind (zzz_subclass d (rec_name rec) (base_dict ids n rec)) (\<lambda>r.
        Inr (acc\<lparr>out_subclass := out_subclass acc @ [JDict r]\<rparr>, Suc n)))"
  by (simp add: zzz_record_def Let_def rec_type_def rec_name_def base_dict_def)

lemma zzz_record_domain:
  "rec = JDict d \<Longrightarrow> rec_type rec = JStr S_domain_card \<Longrightarrow>
   zzz_record u ids rec (acc, n) =
     (rec, ebind (zzz_domain u d (base_dict ids n rec)) (\<lambda>r.
        Inr (acc\<lparr>cfd_domains := add_unique (rec_domain rec) (cfd_domains acc),
                  out_domain := out_domain acc @ [JDict r]\<rparr>, Suc n)))"
  by (simp add: zzz_record_def Let_def rec_type_def rec_name_def rec_domain_def base_dict_def)

lemma zzz_record_variant:
  "rec = JDict d \<Longrightarrow> is_variant rec \<Longrightarrow>
   zzz_record u ids rec (acc, n) =
     (case zzz_variant d (base_dict ids n rec) of
        Inl e \<Rightarrow> (rec, Inl e)
      | Inr (d', r) \<Rightarrow>
          (JDict d',
           Inr (acc\<lparr>cfd_variants := add_unique (rec_type rec) (cfd_variants acc),
                     out_variant := out_variant acc @ [JDict r]\<rparr>, Suc n)))"
  by (simp add: zzz_record_def Let_def rec_type_def rec_name_def is_variant_def base_dict_def
      split: sum.splits)

lemma rec_cases:
  obtains (non_dict) "\<And>d. rec \<noteq> JDict d"
  | (prof) d where "rec = JDict d" "rec_type rec = JStr S_profession"
  | (anc) d where "rec = JDict d" "rec_type rec = JStr S_ancestry"
  | (com) d where "rec = JDict d" "rec_type rec = JStr S_community"
  | (sub) d where "rec = JDict d" "rec_type rec = JStr S_subclass"
  | (dom) d where "rec = JDict d" "rec_type rec = JStr S_domain_card"
  | (var) d where "rec = JDict d" "is_variant rec"
  by (cases rec) (auto simp: is_variant_def)


lemma work_zzz_Inr:
  assumes "work_zzz u ids name version data = (data', Inr pkg)"
  obtains acc n where "zzz_loop u ids data (empty_acc, 0) = (data', Inr (acc, n))"
    "pkg = package_json name version acc"
  using assms by (auto simp: work_zzz_def split: prod.splits sum.splits)

lemma cfd_list_package [simp]:
  "cfd_list (package_json name version acc) K_professions = cfd_professions acc"
  "cfd_list (package_json name version acc) K_ancestries = cfd_ancestries acc"
  "cfd_list (package_json name version acc) K_communities = cfd_communities acc"
  "cfd_list (package_json name version acc) K_domains = cfd_domains acc"
  "cfd_list (package_json name version acc) K_variants = cfd_variants acc"
  by (simp_all add: cfd_list_def pkg_field_def package_json_def dict_get_def list_of_def)

lemma bucket_package [simp]:
  "bucket (package_json name version acc) K_profession = out_profession acc"
  "bucket (package_json name version acc) K_ancestry = out_ancestry acc"
  "bucket (package_json name version acc) K_community = out_community acc"
  "bucket (package_json name version acc) K_subclass_bucket = out_subclass acc"
  "bucket (package_json name version acc) K_domain_bucket = out_domain acc"
  "bucket (package_json name version acc) K_variant = out_variant acc"
  by (simp_all add: bucket_def pkg_field_def package_json_def dict_get_def list_of_def)

lemmas zzz_eval = work_zzz_def zzz_record_def zzz_profession_def zzz_ancestry_def zzz_community_def
  zzz_subclass_def zzz_domain_def zzz_variant_def Let_def dict_get_def py_int_def py_int_str_def
  str_of_def py_index_def py_contains_def split_once_def py_truthy_def py_isdigit_def
  decimal_val_def is_digit_def int_space_def normalise_domain_def ancestry_features_def
  tier_to_rrr_def item_dict_def dict_update_def add_unique_def py_in_def py_eq_def empty_acc_def
  package_json_def ascii_env_def seq_ids_def over_limit_def

lemma show_nat_small: "n < 10 \<Longrightarrow> show_nat n = [48 + n]"
  by (simp add: show_nat.simps)





section \<open>The deduplication lists\<close>

lemma py_in_norm: "py_in x xs \<longleftrightarrow> norm_json x \<in> set (map norm_json xs)"
  by (induction xs) (auto simp: py_in_def py_eq_def)

lemma fold_add_unique:
  "fold add_unique xs acc = acc @ filter (\<lambda>y. \<not> py_in y acc) (first_seen xs)"
proof (induction xs arbitrary: acc)
  case Nil
  then show ?case by simp
next
  case (Cons x xs)
  show ?case
  proof (cases "py_in x acc")
    case True
    have "filter (\<lambda>y. \<not> py_in y acc) (filter (\<lambda>y. \<not> py_eq x y) (first_seen xs))
          = filter (\<lambda>y. \<not> py_in y acc) (first_seen xs)"
      using True by (auto simp: py_in_norm py_eq_def intro!: filter_cong)
    moreover have "add_unique x acc = acc"
      using True by (simp add: add_unique_def)
    ultimately show ?thesis
      using True by (simp add: Cons.IH)
  next
    case False
    have "filter (\<lambda>y. \<not> py_in y (acc @ [x])) (first_seen xs)
          = filter (\<lambda>y. \<not> py_in y acc) (filter (\<lambda>y. \<not> py_eq x y) (first_seen xs))"
      by (auto simp: py_in_norm py_eq_def intro!: filter_cong)
    moreover have "add_unique x acc = acc @ [x]"
      using False by (simp add: add_unique_def)
    ultimately show ?thesis
      using False by (simp add: Cons.IH)
  qed
qed

lemma fold_add_unique_Nil: "fold add_unique xs [] = first_seen xs"
  by (simp add: fold_add_unique py_in_def)

lemma no_repeat_first_seen: "no_repeat (first_seen xs)"
proof (induction xs)
  case Nil
  then show ?case by (simp add: no_repeat_def)
next
  case (Cons x xs)
  have "distinct (map norm_json (filter (\<lambda>y. \<not> py_eq x y) (first_seen xs)))"
    using Cons.IH by (simp add: no_repeat_def distinct_map_filter)
  then show ?case by (auto simp: no_repeat_def py_eq_def)
qed

lemma cfd_step_Nil: "cfd_step [] acc acc"
  by (simp add: cfd_step_def of_type_def)

lemma cfd_step_Cons:
  "cfd_step [rec] acc acc1 \<Longrightarrow> cfd_step rest acc1 acc2 \<Longrightarrow> cfd_step (rec # rest) acc acc2"
  by (simp add: cfd_step_def of_type_def)

lemma zzz_record_cfd:
  assumes "zzz_record u ids rec (acc, n) = (rec', Inr (acc', n'))"
  shows "cfd_step [rec] acc acc'"
proof (cases rec rule: rec_cases)
  case non_dict
  with assms show ?thesis by (simp add: zzz_record_non_dict)
next
  case (prof d)
  with assms show ?thesis
    by (auto simp: zzz_record_profession ebind_eq_Inr cfd_step_def of_type_def is_variant_def)
next
  case (anc d)
  with assms show ?thesis
    by (auto simp: zzz_record_ancestry ebind_eq_Inr cfd_step_def of_type_def is_variant_def)
next
  case (com d)
  with assms show ?thesis
    by (auto simp: zzz_record_community ebind_eq_Inr cfd_step_def of_type_def is_variant_def)
next
  case (sub d)
  with assms show ?thesis
    by (auto simp: zzz_record_subclass ebind_eq_Inr cfd_step_def of_type_def is_variant_def)
next
  case (dom d)
  with assms show ?thesis
    by (auto simp: zzz_record_domain ebind_eq_Inr cfd_step_def of_type_def is_variant_def)
next
  case (var d)
  with assms show ?thesis
    by (auto simp: zzz_record_variant cfd_step_def of_type_def is_variant_def split: sum.splits)
qed

lemma zzz_loop_Cons_Inr:
  assumes "zzz_loop u ids (rec # rest) st = (data', Inr st')"
  obtains rec' rest' st1 where "zzz_record u ids rec st = (rec', Inr st1)"
    "zzz_loop u ids rest st1 = (rest', Inr st')" "data' = rec' # rest'"
  using assms by (auto split: prod.splits sum.splits)

lemma zzz_loop_cfd:
  "zzz_loop u ids data (acc, n) = (data', Inr (acc', n')) \<Longrightarrow> cfd_step data acc acc'"
proof (induction data arbitrary: acc n data')
  case Nil
  then show ?case by (simp add: cfd_step_Nil)
next
  case (Cons rec rest)
  from Cons.prems obtain rec' rest' st1 where
    r: "zzz_record u ids rec (acc, n) = (rec', Inr st1)" and
    l: "zzz_loop u ids rest st1 = (rest', Inr (acc', n'))"
    by (rule zzz_loop_Cons_Inr)
  obtain acc1 n1 where st1: "st1 = (acc1, n1)" by (cases st1)
  from r st1 have "cfd_step [rec] acc acc1" by (simp add: zzz_record_cfd)
  moreover from l st1 have "cfd_step rest acc1 acc'" by (simp add: Cons.IH)
  ultimately show ?case by (rule cfd_step_Cons)
qed


text \<open>
  Claim C8. Whenever \<open>work_zzz\<close> returns a package, each of the five lists under
  \<open>customFieldDefinitions\<close> is the list of first appearances of its source values in
  the input (the names of the profession, ancestry and community records, the domain
  tags of the domain cards, the type tags of all other records), and no list holds two
  equal entries.
\<close>

theorem dedup_lists_first_seen:
  assumes "work_zzz u ids name version data = (data', Inr pkg)"
  shows "cfd_list pkg K_professions = first_seen (map rec_name (of_type S_profession data)) \<and>
         cfd_list pkg K_ancestries = first_seen (map rec_name (of_type S_ancestry data)) \<and>
         cfd_list pkg K_communities = first_seen (map rec_name (of_type S_community data)) \<and>
         cfd_list pkg K_domains = first_seen (map rec_domain (of_type S_domain_card data)) \<and>
         cfd_list pkg K_variants = first_seen (map rec_type (filter is_variant data)) \<and>
         no_repeat (cfd_list pkg K_professions) \<and> no_repeat (cfd_list pkg K_ancestries) \<and>
         no_repeat (cfd_list pkg K_communities) \<and> no_repeat (cfd_list pkg K_domains) \<and>
         no_repeat (cfd_list pkg K_variants)"
proof -
  from assms obtain acc n where
    l: "zzz_loop u ids data (empty_acc, 0) = (data', Inr (acc, n))" and
    p: "pkg = package_json name version acc"
    by (rule work_zzz_Inr)
  from l have "cfd_step data empty_acc acc" by (rule zzz_loop_cfd)
  then show ?thesis
    by (simp add: p cfd_step_def empty_acc_def fold_add_unique_Nil no_repeat_first_seen)
qed

theorem dedup_lists_first_seen_witness:
  "cfd_list (projr (snd (work_zzz ascii_env seq_ids [] [] demo_data))) K_professions = [JStr [66], JStr [65]] \<and>
   cfd_list (projr (snd (work_zzz ascii_env seq_ids [] [] demo_data))) K_variants = [JStr [87]] \<and>
   no_repeat (cfd_list (projr (snd (work_zzz ascii_env seq_ids [] [] demo_data))) K_professions)"
proof -
  have run: "work_zzz ascii_env seq_ids [] [] demo_data =
    (fst (work_zzz ascii_env seq_ids [] [] demo_data), Inr (projr (snd (work_zzz ascii_env seq_ids [] [] demo_data))))"
    by (simp add: zzz_eval demo_data_def demo_profession_def demo_variant_def show_nat_small upt_rec)
  have "first_seen (map rec_name (of_type S_profession demo_data)) = [JStr [66], JStr [65]]"
    by (simp add: demo_data_def demo_profession_def demo_variant_def of_type_def rec_type_def rec_name_def dict_get_def py_eq_def)
  moreover have "first_seen (map rec_type (filter is_variant demo_data)) = [JStr [87]]"
    by (simp add: demo_data_def demo_profession_def demo_variant_def is_variant_def rec_type_def dict_get_def py_eq_def)
  ultimately show ?thesis
    using dedup_lists_first_seen [OF run] by (simp add: no_repeat_def)
qed

section \<open>What a run does to its input\<close>

lemma zzz_variant_Inr:
  assumes "zzz_variant d dict_in = Inr (d', r)"
  shows "d' = dict_set (dict_set d K_effect (dict_get d K_trait (JStr []))) K_brief (JDict (item_dict (brief_parts d)))"
    and "r = dict_update dict_in d'"
  using assms
  by (auto simp: zzz_variant_def Let_def brief_parts_def ebind_eq_Inr str_of_def py_truthy_def
      split: if_splits json.splits)

lemma zzz_record_fst_fixed:
  "\<not> is_variant rec \<Longrightarrow> fst (zzz_record u ids rec st) = rec"
  by (cases rec) (auto simp: zzz_record_def Let_def is_variant_def rec_type_def)

lemma zzz_record_fst_written:
  assumes "zzz_record u ids rec st = (rec', Inr st')"
  shows "rec' = written rec"
proof (cases "is_variant rec")
  case False
  with zzz_record_fst_fixed [OF False, of u ids st] assms show ?thesis
    by (cases rec) (simp_all add: written_def)
next
  case True
  obtain acc n where st: "st = (acc, n)" by (cases st)
  from assms obtain d where d: "rec = JDict d"
    by (cases rec) (auto simp: zzz_record_def)
  from assms True d st show ?thesis
    by (auto simp: zzz_record_variant written_def split: sum.splits dest: zzz_variant_Inr(1))
qed

lemma zzz_loop_frame:
  "length (fst (zzz_loop u ids data st)) = length data \<and>
   (\<forall>i < length data. \<not> is_variant (data ! i) \<longrightarrow> fst (zzz_loop u ids data st) ! i = data ! i)"
proof (induction data arbitrary: st)
  case Nil
  then show ?case by simp
next
  case (Cons rec rest)
  obtain rec' r where step: "zzz_record u ids rec st = (rec', r)" by (cases "zzz_record u ids rec st")
  have fixed: "\<not> is_variant rec \<Longrightarrow> rec' = rec"
    using zzz_record_fst_fixed [of rec u ids st] step by simp
  show ?case
  proof (cases r)
    case (Inl e)
    with step fixed show ?thesis by (auto simp: nth_Cons split: nat.splits)
  next
    case (Inr st1)
    obtain rest' r' where l: "zzz_loop u ids rest st1 = (rest', r')" by (cases "zzz_loop u ids rest st1")
    from Cons.IH [of st1] l have "length rest' = length rest"
      and "\<forall>i < length rest. \<not> is_variant (rest ! i) \<longrightarrow> rest' ! i = rest ! i" by simp_all
    with step Inr l fixed show ?thesis by (auto simp: nth_Cons split: nat.splits)
  qed
qed

lemma zzz_loop_written:
  "zzz_loop u ids data st = (data', Inr st') \<Longrightarrow> data' = map written data"
proof (induction data arbitrary: st data')
  case Nil
  then show ?case by simp
next
  case (Cons rec rest)
  from Cons.prems obtain rec' rest' st1 where
    r: "zzz_record u ids rec st = (rec', Inr st1)" and
    l: "zzz_loop u ids rest st1 = (rest', Inr st')" and d: "data' = rec' # rest'"
    by (rule zzz_loop_Cons_Inr)
  from r have "rec' = written rec" by (rule zzz_record_fst_written)
  moreover from l have "rest' = map written rest" by (rule Cons.IH)
  ultimately show ?case using d by simp
qed

lemma work_zzz_fst: "fst (work_zzz u ids name version data) = fst (zzz_loop u ids data (empty_acc, 0))"
  by (simp add: work_zzz_def split: prod.splits sum.splits)

text \<open>
  Claim C5, as the code has it. A record of one of the five named types is the same
  after the call as before it, whether the call returns or raises. The catch-all branch
  assigns to two keys of its input record before copying it, so when the call returns
  every other record has become \<open>written\<close> of itself.
\<close>

theorem work_zzz_input_effect:
  "length (fst (work_zzz u ids name version data)) = length data \<and>
   (\<forall>i < length data. \<not> is_variant (data ! i) \<longrightarrow>
      fst (work_zzz u ids name version data) ! i = data ! i) \<and>
   (\<forall>pkg. snd (work_zzz u ids name version data) = Inr pkg \<longrightarrow>
      fst (work_zzz u ids name version data) = map written data)"
proof -
  have "fst (work_zzz u ids name version data) = map written data"
    if "snd (work_zzz u ids name version data) = Inr pkg" for pkg
  proof -
    from that obtain data' where "work_zzz u ids name version data = (data', Inr pkg)"
      by (cases "work_zzz u ids name version data") simp
    then obtain acc n where "zzz_loop u ids data (empty_acc, 0) = (data', Inr (acc, n))"
      by (rule work_zzz_Inr)
    then show ?thesis by (simp add: work_zzz_fst zzz_loop_written)
  qed
  then show ?thesis
    using zzz_loop_frame [of u ids data "(empty_acc, 0)"] by (simp add: work_zzz_fst)
qed

theorem work_zzz_input_effect_witness:
  "(0::nat) < length demo_data \<and> \<not> is_variant (demo_data ! 0) \<and>
   fst (work_zzz ascii_env seq_ids [] [] demo_data) ! 0 = demo_data ! 0 \<and>
   snd (work_zzz ascii_env seq_ids [] [] demo_data) =
     Inr (projr (snd (work_zzz ascii_env seq_ids [] [] demo_data))) \<and>
   fst (work_zzz ascii_env seq_ids [] [] demo_data) = map written demo_data"
proof -
  have len: "(0::nat) < length demo_data"
    by (simp add: demo_data_def)
  have fixed: "\<not> is_variant (demo_data ! 0)"
    by (simp add: demo_data_def demo_profession_def is_variant_def rec_type_def dict_get_def)
  have run: "snd (work_zzz ascii_env seq_ids [] [] demo_data) =
     Inr (projr (snd (work_zzz ascii_env seq_ids [] [] demo_data)))"
    by (simp add: zzz_eval demo_data_def demo_profession_def demo_variant_def show_nat_small upt_rec)
  show ?thesis
    using work_zzz_input_effect [of ascii_env seq_ids "[]" "[]" demo_data] len fixed run
    by blast
qed

text \<open>
  The claim as the specification states it fails on a single record of the catch-all
  branch: the list is not the same after the call.
\<close>

theorem work_zzz_input_effect_counterexample:
  "fst (work_zzz ascii_env seq_ids [] [] [demo_variant]) \<noteq> [demo_variant]"
  by (simp add: zzz_eval demo_variant_def show_nat_small upt_rec)


section \<open>Synthetic identifiers\<close>

lemma map_of_dict_set: "map_of (dict_set m k v) = (map_of m)(k \<mapsto> v)"
  by (induction m) (auto simp: fun_eq_iff)

lemma keys_dict_set: "fst ` set (dict_set m k v) = insert k (fst ` set m)"
  by (induction m) auto

lemma entries_dict_set_other:
  "k' \<noteq> k \<Longrightarrow> (k', x) \<in> set (dict_set m k v) \<longleftrightarrow> (k', x) \<in> set m"
  by (induction m) auto

lemma map_of_dict_update:
  "map_of (dict_update m other) = map_of m ++ map_of (rev other)"
  unfolding dict_update_def
proof (induction other arbitrary: m)
  case Nil
  then show ?case by simp
next
  case (Cons p ps)
  show ?case
    by (cases p) (simp add: Cons.IH map_of_dict_set map_add_def fun_eq_iff split: option.splits)
qed

lemma update_lookup:
  assumes "\<And>x. (k, x) \<in> set m \<longleftrightarrow> (k, x) \<in> set d" and "map_of b k = Some w"
  shows "if k \<in> set (map fst d)
         then list_ex (\<lambda>p. fst p = k \<and> (map_of b ++ map_of (rev m)) k = Some (snd p)) d
         else (map_of b ++ map_of (rev m)) k = Some w"
proof (cases "map_of (rev m) k")
  case None
  have "k \<notin> set (map fst d)"
  proof
    assume "k \<in> set (map fst d)"
    then obtain x where "(k, x) \<in> set d" by auto
    then have "(k, x) \<in> set (rev m)" by (simp add: assms(1))
    then have "\<exists>y. map_of (rev m) k = Some y" by (rule weak_map_of_SomeI)
    with None show False by simp
  qed
  with None assms(2) show ?thesis by (simp add: map_add_def)
next
  case (Some v)
  then have "(k, v) \<in> set (rev m)" by (rule map_of_SomeD)
  then have in_d: "(k, v) \<in> set d" by (simp add: assms(1))
  then have "k \<in> set (map fst d)" by (simp add: rev_image_eqI)
  moreover have "list_ex (\<lambda>p. fst p = k \<and> (map_of b ++ map_of (rev m)) k = Some (snd p)) d"
    unfolding list_ex_iff
  proof (rule bexI [OF _ in_d])
    show "fst (k, v) = k \<and> (map_of b ++ map_of (rev m)) k = Some (snd (k, v))"
      using Some by (simp add: map_add_def)
  qed
  ultimately show ?thesis by simp
qed

lemma variant_id_update:
  assumes "\<And>x. (K_id, x) \<in> set m \<longleftrightarrow> (K_id, x) \<in> set d"
  shows "variant_id ids n (JDict d) (JDict (dict_update (base_dict ids n rec) m))"
proof -
  have "map_of (base_dict ids n rec) K_id = Some (JStr (ids n))"
    by (simp add: base_dict_def)
  from update_lookup [of K_id m d, OF assms this] show ?thesis
    by (simp add: variant_id_def id_of_def map_of_dict_update)
qed

lemma zzz_variant_id:
  assumes "zzz_variant d (base_dict ids n rec) = Inr (d', r)"
  shows "variant_id ids n (JDict d) (JDict r)"
proof -
  from assms have d': "d' = dict_set (dict_set d K_effect (dict_get d K_trait (JStr []))) K_brief (JDict (item_dict (brief_parts d)))"
    by (rule zzz_variant_Inr(1))
  from assms have r: "r = dict_update (base_dict ids n rec) d'"
    by (rule zzz_variant_Inr(2))
  have "(K_id, x) \<in> set d' \<longleftrightarrow> (K_id, x) \<in> set d" for x
    unfolding d' by (simp add: entries_dict_set_other)
  then show ?thesis unfolding r by (rule variant_id_update)
qed
lemma id_of_base [simp]: "id_of (JDict (base_dict ids n rec @ xs)) = Some (JStr (ids n))"
  by (simp add: id_of_def base_dict_def)

lemma zzz_profession_id: "zzz_profession u d (base_dict ids n rec) = Inr r \<Longrightarrow> id_of (JDict r) = Some (JStr (ids n))"
  by (auto simp: zzz_profession_def Let_def ebind_eq_Inr)

lemma zzz_community_id: "zzz_community d (base_dict ids n rec) = Inr r \<Longrightarrow> id_of (JDict r) = Some (JStr (ids n))"
  by (auto simp: zzz_community_def Let_def ebind_eq_Inr split: prod.splits)

lemma zzz_subclass_id: "zzz_subclass d nm (base_dict ids n rec) = Inr r \<Longrightarrow> id_of (JDict r) = Some (JStr (ids n))"
  by (auto simp: zzz_subclass_def Let_def ebind_eq_Inr)

lemma zzz_domain_id: "zzz_domain u d (base_dict ids n rec) = Inr r \<Longrightarrow> id_of (JDict r) = Some (JStr (ids n))"
  by (auto simp: zzz_domain_def Let_def ebind_eq_Inr)

lemma zzz_ancestry_id:
  "zzz_ancestry ids n d nm (base_dict ids n rec) = Inr (r1, r2) \<Longrightarrow>
   id_of (JDict r1) = Some (JStr (ids n)) \<and> id_of (JDict r2) = Some (JStr (ids (Suc n)))"
  by (auto simp: zzz_ancestry_def Let_def ebind_eq_Inr id_of_def base_dict_def)

lemma minted_snoc:
  "minted ids rs ks \<Longrightarrow> id_of r = Some (JStr (ids n)) \<Longrightarrow> minted ids (rs @ [r]) (ks @ [n])"
  by (simp add: minted_def)

lemma variant_ids_snoc:
  "variant_ids ids vs outs kv \<Longrightarrow> variant_id ids n rec out \<Longrightarrow>
   variant_ids ids (vs @ [rec]) (outs @ [out]) (kv @ [n])"
  by (auto simp: variant_ids_def intro: list_all2_appendI)


lemma bound_extend:
  assumes "\<forall>k \<in> set xs. k < (n::nat)" and "n \<le> m"
    and "set ys \<subseteq> set xs \<union> {k. k < m}"
  shows "\<forall>k \<in> set ys. k < m"
proof
  fix k assume "k \<in> set ys"
  with assms(3) have "k \<in> set xs \<or> k < m" by blast
  then show "k < m"
  proof
    assume "k \<in> set xs"
    with assms(1) have "k < n" by blast
    with assms(2) show "k < m" by simp
  next
    assume "k < m"
    then show "k < m" .
  qed
qed

lemma ids_inv_intro:
  assumes "distinct (kp @ ka @ kc @ ks @ kd @ kv)"
    and "\<forall>k \<in> set (kp @ ka @ kc @ ks @ kd @ kv). k < n"
    and "minted ids (out_profession acc) kp"
    and "minted ids (out_ancestry acc) ka"
    and "minted ids (out_community acc) kc"
    and "minted ids (out_subclass acc) ks"
    and "minted ids (out_domain acc) kd"
    and "variant_ids ids vs (out_variant acc) kv"
  shows "ids_inv ids vs acc n"
  unfolding ids_inv_def using assms by (intro exI conjI)

lemma ids_inv_step:
  assumes inv: "ids_inv ids vs acc n"
    and step: "zzz_record u ids rec (acc, n) = (rec', Inr (acc', n'))"
  shows "ids_inv ids (vs @ filter is_variant [rec]) acc' n'"
proof -
  from inv obtain kp ka kc ks kd kv where
    dist: "distinct (kp @ ka @ kc @ ks @ kd @ kv)" and
    bound: "\<forall>k \<in> set (kp @ ka @ kc @ ks @ kd @ kv). k < n" and
    mp: "minted ids (out_profession acc) kp" and
    ma: "minted ids (out_ancestry acc) ka" and
    mc: "minted ids (out_community acc) kc" and
    ms: "minted ids (out_subclass acc) ks" and
    md: "minted ids (out_domain acc) kd" and
    mv: "variant_ids ids vs (out_variant acc) kv"
    unfolding ids_inv_def by (elim exE conjE)
  have above: "k \<notin> set (kp @ ka @ kc @ ks @ kd @ kv)" if "n \<le> k" for k
  proof
    assume "k \<in> set (kp @ ka @ kc @ ks @ kd @ kv)"
    with bound have "k < n" by blast
    with that show False by simp
  qed
  have fresh: "n \<notin> set (kp @ ka @ kc @ ks @ kd @ kv)" "Suc n \<notin> set (kp @ ka @ kc @ ks @ kd @ kv)"
    by (simp_all only: above le_refl le_SucI not_False_eq_True)
  show ?thesis
  proof (cases rec rule: rec_cases)
    case non_dict
    with step show ?thesis by (simp add: zzz_record_non_dict)
  next
    case (prof d)
    with step obtain r where r: "zzz_profession u d (base_dict ids n rec) = Inr r"
      and acc': "acc' = acc\<lparr>cfd_professions := add_unique (rec_name rec) (cfd_professions acc),
                  out_profession := out_profession acc @ [JDict r]\<rparr>" and n': "n' = Suc n"
      by (auto simp: zzz_record_profession ebind_eq_Inr)
    have nv: "vs @ filter is_variant [rec] = vs" using prof by (simp add: is_variant_def)
    have d1: "distinct ((kp @ [n]) @ ka @ kc @ ks @ kd @ kv)"
      using dist fresh by auto
    have b1: "\<forall>k \<in> set ((kp @ [n]) @ ka @ kc @ ks @ kd @ kv). k < n'"
      by (rule bound_extend [OF bound]) (auto simp: n')
    have mp1: "minted ids (out_profession acc') (kp @ [n])"
      using mp zzz_profession_id [OF r] by (simp add: acc' minted_def)
    have ma1: "minted ids (out_ancestry acc') ka"
      using ma by (simp add: acc')
    have mc1: "minted ids (out_community acc') kc"
      using mc by (simp add: acc')
    have ms1: "minted ids (out_subclass acc') ks"
      using ms by (simp add: acc')
    have md1: "minted ids (out_domain acc') kd"
      using md by (simp add: acc')
    have mv1: "variant_ids ids (vs @ filter is_variant [rec]) (out_variant acc') kv"
      unfolding nv using mv by (simp add: acc')
    show ?thesis
      by (rule ids_inv_intro [OF d1 b1 mp1 ma1 mc1 ms1 md1 mv1])
  next
    case (anc d)
    with step obtain r1 r2 where r: "zzz_ancestry ids n d (rec_name rec) (base_dict ids n rec) = Inr (r1, r2)"
      and acc': "acc' = acc\<lparr>cfd_ancestries := add_unique (rec_name rec) (cfd_ancestries acc),
                  out_ancestry := out_ancestry acc @ [JDict r1, JDict r2]\<rparr>" and n': "n' = Suc (Suc n)"
      by (auto simp: zzz_record_ancestry ebind_eq_Inr)
    have nv: "vs @ filter is_variant [rec] = vs" using anc by (simp add: is_variant_def)
    have d1: "distinct (kp @ (ka @ [n, Suc n]) @ kc @ ks @ kd @ kv)"
      using dist fresh by auto
    have b1: "\<forall>k \<in> set (kp @ (ka @ [n, Suc n]) @ kc @ ks @ kd @ kv). k < n'"
      by (rule bound_extend [OF bound]) (auto simp: n')
    have mp1: "minted ids (out_profession acc') kp"
      using mp by (simp add: acc')
    have ma1: "minted ids (out_ancestry acc') (ka @ [n, Suc n])"
      using ma zzz_ancestry_id [OF r] by (simp add: acc' minted_def)
    have mc1: "minted ids (out_community acc') kc"
      using mc by (simp add: acc')
    have ms1: "minted ids (out_subclass acc') ks"
      using ms by (simp add: acc')
    have md1: "minted ids (out_domain acc') kd"
      using md by (simp add: acc')
    have mv1: "variant_ids ids (vs @ filter is_variant [rec]) (out_variant acc') kv"
      unfolding nv using mv by (simp add: acc')
    show ?thesis
      by (rule ids_inv_intro [OF d1 b1 mp1 ma1 mc1 ms1 md1 mv1])
  next
    case (com d)
    with step obtain r where r: "zzz_community d (base_dict ids n rec) = Inr r"
      and acc': "acc' = acc\<lparr>cfd_communities := add_unique (rec_name rec) (cfd_communities acc),
                  out_community := out_community acc @ [JDict r]\<rparr>" and n': "n' = Suc n"
      by (auto simp: zzz_record_community ebind_eq_Inr)
    have nv: "vs @ filter is_variant [rec] = vs" using com by (simp add: is_variant_def)
    have d1: "distinct (kp @ ka @ (kc @ [n]) @ ks @ kd @ kv)"
      using dist fresh by auto
    have b1: "\<forall>k \<in> set (kp @ ka @ (kc @ [n]) @ ks @ kd @ kv). k < n'"
      by (rule bound_extend [OF bound]) (auto simp: n')
    have mp1: "minted ids (out_profession acc') kp"
      using mp by (simp add: acc')
    have ma1: "minted ids (out_ancestry acc') ka"
      using ma by (simp add: acc')
    have mc1: "minted ids (out_community acc') (kc @ [n])"
      using mc zzz_community_id [OF r] by (simp add: acc' minted_def)
    have ms1: "minted ids (out_subclass acc') ks"
      using ms by (simp add: acc')
    have md1: "minted ids (out_domain acc') kd"
      using md by (simp add: acc')
    have mv1: "variant_ids ids (vs @ filter is_variant [rec]) (out_variant acc') kv"
      unfolding nv using mv by (simp add: acc')
    show ?thesis
      by (rule ids_inv_intro [OF d1 b1 mp1 ma1 mc1 ms1 md1 mv1])
  next
    case (sub d)
    with step obtain r where r: "zzz_subclass d (rec_name rec) (base_dict ids n rec) = Inr r"
      and acc': "acc' = acc\<lparr>out_subclass := out_subclass acc @ [JDict r]\<rparr>" and n': "n' = Suc n"
      by (auto simp: zzz_record_subclass ebind_eq_Inr)
    have nv: "vs @ filter is_variant [rec] = vs" using sub by (simp add: is_variant_def)
    have d1: "distinct (kp @ ka @ kc @ (ks @ [n]) @ kd @ kv)"
      using dist fresh by auto
    have b1: "\<forall>k \<in> set (kp @ ka @ kc @ (ks @ [n]) @ kd @ kv). k < n'"
      by (rule bound_extend [OF bound]) (auto simp: n')
    have mp1: "minted ids (out_profession acc') kp"
      using mp by (simp add: acc')
    have ma1: "minted ids (out_ancestry acc') ka"
      using ma by (simp add: acc')
    have mc1: "minted ids (out_community acc') kc"
      using mc by (simp add: acc')
    have ms1: "minted ids (out_subclass acc') (ks @ [n])"
      using ms zzz_subclass_id [OF r] by (simp add: acc' minted_def)
    have md1: "minted ids (out_domain acc') kd"
      using md by (simp add: acc')
    have mv1: "variant_ids ids (vs @ filter is_variant [rec]) (out_variant acc') kv"
      unfolding nv using mv by (simp add: acc')
    show ?thesis
      by (rule ids_inv_intro [OF d1 b1 mp1 ma1 mc1 ms1 md1 mv1])
  next
    case (dom d)
    with step obtain r where r: "zzz_domain u d (base_dict ids n rec) = Inr r"
      and acc': "acc' = acc\<lparr>cfd_domains := add_unique (rec_domain rec) (cfd_domains acc),
                  out_domain := out_domain acc @ [JDict r]\<rparr>" and n': "n' = Suc n"
      by (auto simp: zzz_record_domain ebind_eq_Inr)
    have nv: "vs @ filter is_variant [rec] = vs" using dom by (simp add: is_variant_def)
    have d1: "distinct (kp @ ka @ kc @ ks @ (kd @ [n]) @ kv)"
      using dist fresh by auto
    have b1: "\<forall>k \<in> set (kp @ ka @ kc @ ks @ (kd @ [n]) @ kv). k < n'"
      by (rule bound_extend [OF bound]) (auto simp: n')
    have mp1: "minted ids (out_profession acc') kp"
      using mp by (simp add: acc')
    have ma1: "minted ids (out_ancestry acc') ka"
      using ma by (simp add: acc')
    have mc1: "minted ids (out_community acc') kc"
      using mc by (simp add: acc')
    have ms1: "minted ids (out_subclass acc') ks"
      using ms by (simp add: acc')
    have md1: "minted ids (out_domain acc') (kd @ [n])"
      using md zzz_domain_id [OF r] by (simp add: acc' minted_def)
    have mv1: "variant_ids ids (vs @ filter is_variant [rec]) (out_variant acc') kv"
      unfolding nv using mv by (simp add: acc')
    show ?thesis
      by (rule ids_inv_intro [OF d1 b1 mp1 ma1 mc1 ms1 md1 mv1])
  next
    case (var d)
    with step obtain d' r where r: "zzz_variant d (base_dict ids n rec) = Inr (d', r)"
      and acc': "acc' = acc\<lparr>cfd_variants := add_unique (rec_type rec) (cfd_variants acc),
                  out_variant := out_variant acc @ [JDict r]\<rparr>" and n': "n' = Suc n"
      by (auto simp: zzz_record_variant split: sum.splits)
    have d1: "distinct (kp @ ka @ kc @ ks @ kd @ (kv @ [n]))"
      using dist fresh by auto
    have b1: "\<forall>k \<in> set (kp @ ka @ kc @ ks @ kd @ (kv @ [n])). k < n'"
      by (rule bound_extend [OF bound]) (auto simp: n')
    have mp1: "minted ids (out_profession acc') kp"
      using mp by (simp add: acc')
    have ma1: "minted ids (out_ancestry acc') ka"
      using ma by (simp add: acc')
    have mc1: "minted ids (out_community acc') kc"
      using mc by (simp add: acc')
    have ms1: "minted ids (out_subclass acc') ks"
      using ms by (simp add: acc')
    have md1: "minted ids (out_domain acc') kd"
      using md by (simp add: acc')
    have mv1: "variant_ids ids (vs @ filter is_variant [rec]) (out_variant acc') (kv @ [n])"
      using mv zzz_variant_id [OF r] var by (simp add: acc' variant_ids_snoc)
    show ?thesis
      by (rule ids_inv_intro [OF d1 b1 mp1 ma1 mc1 ms1 md1 mv1])
  qed
qed

lemma zzz_loop_ids_inv:
  "ids_inv ids vs acc n \<Longrightarrow> zzz_loop u ids data (acc, n) = (data', Inr (acc', n')) \<Longrightarrow>
   ids_inv ids (vs @ filter is_variant data) acc' n'"
proof (induction data arbitrary: vs acc n data')
  case Nil
  then show ?case by simp
next
  case (Cons rec rest)
  from Cons.prems(2) obtain rec' rest' st1 where
    r: "zzz_record u ids rec (acc, n) = (rec', Inr st1)" and
    l: "zzz_loop u ids rest st1 = (rest', Inr (acc', n'))"
    by (rule zzz_loop_Cons_Inr)
  obtain acc1 n1 where st1: "st1 = (acc1, n1)" by (cases st1)
  have "ids_inv ids (vs @ filter is_variant [rec]) acc1 n1"
    using Cons.prems(1) r [unfolded st1] by (rule ids_inv_step)
  from Cons.IH [OF this] l st1
  have "ids_inv ids ((vs @ filter is_variant [rec]) @ filter is_variant rest) acc' n'" by simp
  then show ?case by (cases "is_variant rec") simp_all
qed

lemma ids_inv_empty: "ids_inv ids [] empty_acc 0"
  unfolding ids_inv_def
  by (intro exI [of _ "[]"]) (simp add: empty_acc_def minted_def variant_ids_def)

text \<open>
  Claim C7, as the code has it. The identifier is drawn at the top of the loop body,
  before the type of the record is looked at, and the ancestry branch draws a second
  one. So every record of the profession, ancestry, community, subclass and domain
  buckets carries the string of a call of \<open>gen_uuid\<close> of its own (the calls \<open>kp\<close>, ...,
  \<open>kd\<close> are pairwise distinct), and so does a record of the variant bucket, unless the
  input record has an \<open>id\<close> key, which \<open>dict_in.update(d)\<close> copies over it.
\<close>

theorem emitted_ids_minted:
  assumes "work_zzz u ids name version data = (data', Inr pkg)"
  shows "\<exists>kp ka kc ks kd kv.
           distinct (kp @ ka @ kc @ ks @ kd @ kv) \<and>
           minted ids (bucket pkg K_profession) kp \<and>
           minted ids (bucket pkg K_ancestry) ka \<and>
           minted ids (bucket pkg K_community) kc \<and>
           minted ids (bucket pkg K_subclass_bucket) ks \<and>
           minted ids (bucket pkg K_domain_bucket) kd \<and>
           variant_ids ids (filter is_variant data) (bucket pkg K_variant) kv"
proof -
  from assms obtain acc n where
    l: "zzz_loop u ids data (empty_acc, 0) = (data', Inr (acc, n))" and
    p: "pkg = package_json name version acc"
    by (rule work_zzz_Inr)
  from zzz_loop_ids_inv [OF ids_inv_empty l] have "ids_inv ids (filter is_variant data) acc n"
    by simp
  then show ?thesis
    unfolding ids_inv_def p bucket_package
    by (elim exE conjE) (intro exI conjI; assumption)
qed
theorem emitted_ids_minted_witness:
  "\<exists>kp ka kc ks kd kv.
     distinct (kp @ ka @ kc @ ks @ kd @ kv) \<and>
     minted seq_ids (bucket (projr (snd (work_zzz ascii_env seq_ids [] [] demo_data))) K_profession) kp \<and>
     minted seq_ids (bucket (projr (snd (work_zzz ascii_env seq_ids [] [] demo_data))) K_ancestry) ka \<and>
     minted seq_ids (bucket (projr (snd (work_zzz ascii_env seq_ids [] [] demo_data))) K_community) kc \<and>
     minted seq_ids (bucket (projr (snd (work_zzz ascii_env seq_ids [] [] demo_data))) K_subclass_bucket) ks \<and>
     minted seq_ids (bucket (projr (snd (work_zzz ascii_env seq_ids [] [] demo_data))) K_domain_bucket) kd \<and>
     variant_ids seq_ids (filter is_variant demo_data)
       (bucket (projr (snd (work_zzz ascii_env seq_ids [] [] demo_data))) K_variant) kv"
proof -
  have run: "work_zzz ascii_env seq_ids [] [] demo_data =
    (fst (work_zzz ascii_env seq_ids [] [] demo_data),
     Inr (projr (snd (work_zzz ascii_env seq_ids [] [] demo_data))))"
    by (simp add: zzz_eval demo_data_def demo_profession_def demo_variant_def show_nat_small upt_rec)
  show ?thesis
    by (rule emitted_ids_minted [OF run])
qed

text \<open>
  The claim as the specification states it excludes the community and domain records
  from the identifiers; the record emitted for a community carries the string of the
  first call.
\<close>

theorem emitted_ids_counterexample:
  "id_of (bucket (projr (snd (work_zzz ascii_env seq_ids [] [] [demo_community]))) K_community ! 0)
     = Some (JStr (seq_ids 0))"
  by (simp add: zzz_eval demo_community_def show_nat_small bucket_def pkg_field_def list_of_def
      id_of_def)

section \<open>The brief-info string of a variant record\<close>

lemma dict_set_fresh: "k \<notin> fst ` set m \<Longrightarrow> dict_set m k v = m @ [(k, v)]"
  by (induction m) auto

lemma keys_dict_set_list:
  "map fst (dict_set m k v) = (if k \<in> fst ` set m then map fst m else map fst m @ [k])"
  by (induction m) auto

lemma wf_dict_set: "wf_dict m \<Longrightarrow> wf_dict (dict_set m k v)"
  by (simp add: wf_dict_def keys_dict_set_list)

lemma wf_dict_update: "wf_dict m \<Longrightarrow> wf_dict (dict_update m other)"
  unfolding dict_update_def
  by (induction other arbitrary: m) (simp_all add: wf_dict_set)

lemma wf_dict_pop: "wf_dict m \<Longrightarrow> wf_dict (dict_pop m k)"
  by (simp add: wf_dict_def dict_pop_def distinct_map_filter)

lemma map_of_dict_pop: "map_of (dict_pop m k) k' = (if k' = k then None else map_of m k')"
  by (induction m) (auto simp: dict_pop_def)

lemma map_of_rev_wf: "wf_dict m \<Longrightarrow> map_of (rev m) = map_of m"
  by (subst map_of_inject_set) (simp_all add: wf_dict_def rev_map [symmetric])

lemma map_of_dict_update_wf:
  "wf_dict other \<Longrightarrow> map_of (dict_update m other) = map_of m ++ map_of other"
  by (simp add: map_of_dict_update map_of_rev_wf)

lemma fold_dict_set_fresh:
  "distinct (map f js) \<Longrightarrow> f ` set js \<inter> fst ` set acc = {} \<Longrightarrow>
   fold (\<lambda>i a. dict_set a (f i) (g i)) js acc = acc @ map (\<lambda>i. (f i, g i)) js"
proof (induction js arbitrary: acc)
  case Nil
  then show ?case by simp
next
  case (Cons j js)
  from Cons.prems have fresh: "f j \<notin> fst ` set acc" by auto
  have "f ` set js \<inter> fst ` set (acc @ [(f j, g j)]) = {}"
    using Cons.prems by auto
  with Cons.prems Cons.IH [of "acc @ [(f j, g j)]"] fresh show ?case
    by (simp add: dict_set_fresh)
qed

lemma truthy_fields_wf:
  assumes "wf_dict m"
  shows "truthy_fields m = filter (\<lambda>p. py_truthy (snd p)) m"
proof -
  have "distinct (map fst m) \<Longrightarrow> fst ` set m \<inter> fst ` set acc = {} \<Longrightarrow>
        fold (\<lambda>p a. if py_truthy (snd p) then dict_set a (fst p) (snd p) else a) m acc
          = acc @ filter (\<lambda>p. py_truthy (snd p)) m" for acc
  proof (induction m arbitrary: acc)
    case Nil
    then show ?case by simp
  next
    case (Cons p ps)
    from Cons.prems have fresh: "fst p \<notin> fst ` set acc" by auto
    have "fst ` set ps \<inter> fst ` set (acc @ [(fst p, snd p)]) = {}"
      using Cons.prems by auto
    with Cons.prems Cons.IH [of "acc @ [(fst p, snd p)]"] Cons.IH [of acc] fresh show ?case
      by (auto simp: dict_set_fresh)
  qed
  from this [of "[]"] assms show ?thesis
    by (simp add: truthy_fields_def wf_dict_def)
qed

lemma map_of_filter_snd:
  "map_of m k = Some v \<Longrightarrow> P v \<Longrightarrow> map_of (filter (\<lambda>p. P (snd p)) m) k = Some v"
  by (induction m) (auto split: if_splits)

lemma map_of_truthy_fields:
  "wf_dict m \<Longrightarrow> map_of m k = Some v \<Longrightarrow> py_truthy v \<Longrightarrow> map_of (truthy_fields m) k = Some v"
  by (simp add: truthy_fields_wf map_of_filter_snd)

lemma digits_val_show_nat: "digits_val (show_nat n) = n"
proof (induction n rule: show_nat.induct)
  case (1 n)
  show ?case
  proof (cases "n < 10")
    case True
    then show ?thesis by (simp add: show_nat.simps digits_val_def)
  next
    case False
    with 1 have "digits_val (show_nat (n div 10)) = n div 10" by simp
    with False show ?thesis
      by (subst show_nat.simps) (simp add: digits_val_def)
  qed
qed

lemma show_nat_inj: "show_nat n = show_nat m \<Longrightarrow> n = m"
  by (metis digits_val_show_nat)

lemma item_dict_eq:
  "item_dict parts = map (\<lambda>i. (S_item @ show_nat i, JStr (parts ! i))) [0 ..< length parts]"
proof -
  have "distinct (map (\<lambda>i. S_item @ show_nat i) [0 ..< length parts])"
    by (auto simp: distinct_map inj_on_def dest: show_nat_inj)
  then show ?thesis
    unfolding item_dict_def by (subst fold_dict_set_fresh) simp_all
qed

lemma join_items_fold:
  "fold (\<lambda>p attr. if py_truthy (snd p) then attr @ py_str u (snd p) @ [47] else attr) items acc
     = acc @ concat (map (\<lambda>p. py_str u (snd p) @ [47]) (filter (\<lambda>p. py_truthy (snd p)) items))"
  by (induction items arbitrary: acc) simp_all

lemma join_items_item_dict:
  assumes "\<forall>p \<in> set parts. p \<noteq> []"
  shows "join_items u (item_dict parts) = concat (map (\<lambda>p. p @ [47]) parts)"
proof -
  have "map (\<lambda>i. parts ! i) [0 ..< length parts] = parts" by (rule map_nth)
  moreover have "filter (\<lambda>p. py_truthy (snd p)) (item_dict parts) = item_dict parts"
    using assms by (auto simp: item_dict_eq py_truthy_def intro!: filter_True)
  ultimately show ?thesis
    by (simp add: join_items_def join_items_fold item_dict_eq py_str_def o_def)
       (metis (no_types, lifting) map_nth map_map o_def map_eq_conv)
qed

lemma butlast_concat_sep:
  "parts \<noteq> [] \<Longrightarrow> butlast (concat (map (\<lambda>p. p @ [c]) parts)) = join_chr c parts"
  by (induction c parts rule: join_chr.induct) (simp_all add: butlast_append)

lemma split_chr_not_Nil [simp]: "split_chr c s \<noteq> []"
  by (induction s) (auto split: list.splits)

lemma split_chr_no_sep: "c \<notin> set p \<Longrightarrow> split_chr c (p @ c # s) = p # split_chr c s"
  by (induction p) (auto split: list.splits)

lemma split_chr_no_sep_end: "c \<notin> set p \<Longrightarrow> split_chr c p = [p]"
  by (induction p) (auto split: list.splits)

lemma split_join_chr:
  "parts \<noteq> [] \<Longrightarrow> \<forall>p \<in> set parts. c \<notin> set p \<Longrightarrow> split_chr c (join_chr c parts) = parts"
  by (induction c parts rule: join_chr.induct) (simp_all add: split_chr_no_sep split_chr_no_sep_end)

lemma zzz_variant_brief:
  assumes "map_of d K_brief = Some (JStr s)" and "s \<noteq> []"
  shows "zzz_variant d dict_in =
     Inr (dict_set (dict_set d K_effect (dict_get d K_trait (JStr []))) K_brief
            (JDict (item_dict (split_chr 47 s))),
          dict_update dict_in
            (dict_set (dict_set d K_effect (dict_get d K_trait (JStr []))) K_brief
               (JDict (item_dict (split_chr 47 s)))))"
  using assms by (simp add: zzz_variant_def Let_def dict_get_def py_truthy_def str_of_def)

lemma work_zzz_single_variant:
  assumes "is_variant (JDict d)" and "zzz_variant d (base_dict ids 0 (JDict d)) = Inr (d', v)"
  shows "work_zzz u ids name version [JDict d] =
     ([JDict d'],
      Inr (package_json name version
             (empty_acc\<lparr>cfd_variants := [rec_type (JDict d)], out_variant := [JDict v]\<rparr>)))"
  using assms
  by (simp add: work_zzz_def zzz_record_variant add_unique_def py_in_def empty_acc_def)

lemma work_rrr_only_variant:
  "work_rrr u [package_json name version (empty_acc\<lparr>cfd_variants := c, out_variant := [JDict v]\<rparr>)]
     = ebind (rrr_variant u v) (\<lambda>r. Inr [JDict r])"
  by (cases "rrr_variant u v")
     (simp_all add: work_rrr_def rrr_package_def package_json_def bucket_keys_def dict_get_def
       bucket_entries_def py_truthy_def rrr_record_def empty_acc_def)

lemma rrr_variant_brief:
  assumes "wf_dict v" and "map_of v K_brief = Some (JDict items)"
    and "butlast (join_items u items) \<noteq> []"
  shows "\<exists>r. rrr_variant u v = Inr r \<and>
             map_of r K_brief = Some (JStr (butlast (join_items u items)))"
proof -
  let ?d1 = "dict_pop (dict_pop v K_id) K_imageUrl"
  let ?s = "butlast (join_items u items)"
  have d1: "map_of ?d1 K_brief = Some (JDict items)"
    using assms(2) by (simp add: map_of_dict_pop)
  have wf: "wf_dict (dict_set ?d1 K_brief (JStr ?s))"
    using assms(1) by (simp add: wf_dict_pop wf_dict_set)
  have ne: "join_items u items \<noteq> []"
    using assms(3) by auto
  have "rrr_variant u v = Inr (truthy_fields (dict_set ?d1 K_brief (JStr ?s)))"
    using d1 ne by (simp add: rrr_variant_def Let_def dict_get_def)
  moreover have "map_of (truthy_fields (dict_set ?d1 K_brief (JStr ?s))) K_brief = Some (JStr ?s)"
    using wf assms(3) by (intro map_of_truthy_fields) (simp_all add: map_of_dict_set py_truthy_def)
  ultimately show ?thesis by simp
qed

lemma join_chr_not_Nil:
  "parts \<noteq> [] \<Longrightarrow> \<forall>p \<in> set parts. p \<noteq> [] \<Longrightarrow> join_chr c parts \<noteq> []"
  by (induction c parts rule: join_chr.induct) simp_all

text \<open>
  Claim C2. Take a record of the catch-all branch whose brief-info string is
  \<open>parts\<close> joined by \<open>/\<close>, every part non-empty. Then \<open>work_zzz\<close> emits one variant record
  whose brief info is the mapping \<open>item0\<close>, \<open>item1\<close>, ... of the parts in their order, and
  \<open>work_rrr\<close> applied to that package returns one record whose brief info is the original
  string.
\<close>

theorem variant_brief_round_trip:
  assumes variant: "is_variant (JDict d)" and wf: "wf_dict d"
    and parts: "parts \<noteq> []" "\<forall>p \<in> set parts. p \<noteq> [] \<and> 47 \<notin> set p"
    and brief: "map_of d K_brief = Some (JStr (join_chr 47 parts))"
  shows "\<exists>d' pkg v r.
           work_zzz u ids name version [JDict d] = ([JDict d'], Inr pkg) \<and>
           bucket pkg K_variant = [JDict v] \<and>
           map_of v K_brief =
             Some (JDict (map (\<lambda>i. (S_item @ show_nat i, JStr (parts ! i))) [0 ..< length parts])) \<and>
           work_rrr u [pkg] = Inr [JDict r] \<and>
           map_of r K_brief = Some (JStr (join_chr 47 parts))"
proof -
  let ?s = "join_chr 47 parts"
  let ?d' = "dict_set (dict_set d K_effect (dict_get d K_trait (JStr []))) K_brief
               (JDict (item_dict (split_chr 47 ?s)))"
  let ?v = "dict_update (base_dict ids 0 (JDict d)) ?d'"
  let ?acc = "empty_acc\<lparr>cfd_variants := [rec_type (JDict d)], out_variant := [JDict ?v]\<rparr>"
  have ne: "?s \<noteq> []" using parts by (simp add: join_chr_not_Nil)
  have split: "split_chr 47 ?s = parts" using parts by (simp add: split_join_chr)
  have zv: "zzz_variant d (base_dict ids 0 (JDict d)) = Inr (?d', ?v)"
    using brief ne by (rule zzz_variant_brief)
  have run: "work_zzz u ids name version [JDict d] = ([JDict ?d'], Inr (package_json name version ?acc))"
    using variant zv by (rule work_zzz_single_variant)
  have wfd': "wf_dict ?d'" using wf by (simp add: wf_dict_set)
  have wfv: "wf_dict ?v" by (rule wf_dict_update) (simp add: wf_dict_def base_dict_def)
  have "map_of ?d' K_brief = Some (JDict (item_dict parts))"
    by (simp add: map_of_dict_set split)
  then have vbrief: "map_of ?v K_brief = Some (JDict (item_dict parts))"
    using wfd' by (simp add: map_of_dict_update_wf map_add_def)
  have joined: "butlast (join_items u (item_dict parts)) = ?s"
    using parts by (simp add: join_items_item_dict butlast_concat_sep)
  with ne have "butlast (join_items u (item_dict parts)) \<noteq> []" by simp
  from rrr_variant_brief [OF wfv vbrief this] obtain r where
    r: "rrr_variant u ?v = Inr r" "map_of r K_brief = Some (JStr ?s)"
    using joined by auto
  have rrr_run: "work_rrr u [package_json name version ?acc] = Inr [JDict r]"
    by (simp add: work_rrr_only_variant r(1))
  have bk: "bucket (package_json name version ?acc) K_variant = [JDict ?v]"
    by simp
  from run bk vbrief rrr_run r(2) show ?thesis
    unfolding item_dict_eq by blast
qed

theorem variant_brief_round_trip_witness:
  "\<exists>d' pkg v r.
     work_zzz ascii_env seq_ids [] [] [JDict demo_weapon] = ([JDict d'], Inr pkg) \<and>
     bucket pkg K_variant = [JDict v] \<and>
     map_of v K_brief =
       Some (JDict [(S_item @ [48], JStr [36817, 25112]), (S_item @ [49], JStr [29289, 29702]),
                    (S_item @ [50], JStr [51, 28857])]) \<and>
     work_rrr ascii_env [pkg] = Inr [JDict r] \<and>
     map_of r K_brief = Some (JStr [36817, 25112, 47, 29289, 29702, 47, 51, 28857])"
proof -
  have variant: "is_variant (JDict demo_weapon)"
    by (simp add: is_variant_def rec_type_def demo_weapon_def dict_get_def)
  have wf: "wf_dict demo_weapon"
    by (simp add: wf_dict_def demo_weapon_def)
  have parts: "demo_weapon_parts \<noteq> []" "\<forall>p \<in> set demo_weapon_parts. p \<noteq> [] \<and> 47 \<notin> set p"
    by (simp_all add: demo_weapon_parts_def)
  have brief: "map_of demo_weapon K_brief = Some (JStr (join_chr 47 demo_weapon_parts))"
    by (simp add: demo_weapon_def demo_weapon_parts_def)
  have items: "map (\<lambda>i. (S_item @ show_nat i, JStr (demo_weapon_parts ! i))) [0 ..< length demo_weapon_parts]
      = [(S_item @ [48], JStr [36817, 25112]), (S_item @ [49], JStr [29289, 29702]),
         (S_item @ [50], JStr [51, 28857])]"
    by (simp add: demo_weapon_parts_def upt_rec show_nat_small)
  have joined: "join_chr 47 demo_weapon_parts = [36817, 25112, 47, 29289, 29702, 47, 51, 28857]"
    by (simp add: demo_weapon_parts_def)
  show ?thesis
    using variant_brief_round_trip [OF variant wf parts brief, of ascii_env seq_ids "[]" "[]"]
    unfolding items joined .
qed

section \<open>The recall cost of a domain card\<close>

lemma foldl_digits_ge: "a \<le> foldl (\<lambda>a c. 10 * a + (c - 48)) (a::nat) cs"
proof (induction cs arbitrary: a)
  case Nil
  then show ?case by simp
next
  case (Cons c cs)
  have "a \<le> 10 * a + (c - 48)" by simp
  also have "\<dots> \<le> foldl (\<lambda>a c. 10 * a + (c - 48)) (10 * a + (c - 48)) cs" by (rule Cons.IH)
  finally show ?case by simp
qed

lemma digits_val_snoc: "digits_val (xs @ [c]) = 10 * digits_val xs + (c - 48)"
  by (simp add: digits_val_def)

lemma digits_val_pos: "xs \<noteq> [] \<Longrightarrow> 48 < hd xs \<Longrightarrow> 0 < digits_val xs"
proof (cases xs)
  case Nil
  assume "xs \<noteq> []" with Nil show ?thesis by simp
next
  case (Cons c cs)
  assume "48 < hd xs"
  with Cons have "0 < c - 48" by simp
  also have "\<dots> \<le> foldl (\<lambda>a c. 10 * a + (c - 48)) (c - 48) cs" by (rule foldl_digits_ge)
  finally show ?thesis by (simp add: Cons digits_val_def)
qed

lemma show_nat_digits_val: "canonical_nat s \<Longrightarrow> show_nat (digits_val s) = s"
proof (induction s rule: rev_induct)
  case Nil
  then show ?case by (simp add: canonical_nat_def)
next
  case (snoc c xs)
  from snoc.prems have c: "48 \<le> c" "c \<le> 57"
    by (simp_all add: canonical_nat_def)
  show ?case
  proof (cases "xs = []")
    case True
    with c show ?thesis
      by (simp add: digits_val_def show_nat.simps)
  next
    case False
    with snoc.prems have hd: "hd xs \<noteq> 48" and digs: "list_all (\<lambda>c. 48 \<le> c \<and> c \<le> 57) xs"
      by (auto simp: canonical_nat_def)
    from digs False have "48 \<le> hd xs" by (cases xs) simp_all
    with hd have "48 < hd xs" by simp
    with False have pos: "0 < digits_val xs" by (rule digits_val_pos)
    from False hd digs have "canonical_nat xs" by (simp add: canonical_nat_def)
    then have IH: "show_nat (digits_val xs) = xs" by (rule snoc.IH)
    define e where "e = c - 48"
    from c have e: "c = 48 + e" "e < 10" by (simp_all add: e_def)
    have "\<not> 10 * digits_val xs + e < 10" using pos by simp
    moreover have "(10 * digits_val xs + e) div 10 = digits_val xs" using e by simp
    moreover have "(10 * digits_val xs + e) mod 10 = e" using e by simp
    moreover have "digits_val (xs @ [c]) = 10 * digits_val xs + e"
      by (simp add: digits_val_snoc e_def)
    ultimately show ?thesis
      by (subst show_nat.simps) (simp add: IH e)
  qed
qed

lemma decimal_value_ascii:
  "list_all (\<lambda>c. 48 \<le> c \<and> c \<le> 57) s \<Longrightarrow> decimal_value u s = digits_val s"
proof (induction s rule: rev_induct)
  case Nil
  then show ?case by (simp add: decimal_value_def digits_val_def)
next
  case (snoc c xs)
  then show ?case by (simp add: decimal_value_def digits_val_def decimal_val_def)
qed

lemma canonical_all_decimal: "canonical_nat s \<Longrightarrow> all_decimal u s"
  by (auto simp: canonical_nat_def all_decimal_def decimal_val_def list_all_iff)

lemma scan_digits_all_decimal:
  "list_all (\<lambda>c. decimal_val u c \<noteq> None) s \<Longrightarrow> prev \<or> s \<noteq> [] \<Longrightarrow>
   scan_digits u prev acc s = Some (foldl (\<lambda>a c. 10 * a + the (decimal_val u c)) acc s, [])"
  by (induction s arbitrary: prev acc) auto

lemma decimal_not_int_space: "decimal_val u c \<noteq> None \<Longrightarrow> \<not> int_space u c"
  by (auto simp: decimal_val_def int_space_def split: if_splits)

lemma decimal_not_sign: "decimal_val u c \<noteq> None \<Longrightarrow> c \<noteq> 43 \<and> c \<noteq> 45"
  by (auto simp: decimal_val_def split: if_splits)

lemma filter_all: "list_all P xs \<Longrightarrow> filter P xs = xs"
  by (induction xs) simp_all

lemma py_int_str_all_decimal:
  assumes "all_decimal u s" and "\<not> over_limit u (length s)"
  shows "py_int_str u s = Some (int (decimal_value u s))"
proof -
  from assms(1) obtain c cs where s: "s = c # cs" and c: "decimal_val u c \<noteq> None"
    and all: "list_all (\<lambda>c. decimal_val u c \<noteq> None) s"
    by (cases s) (auto simp: all_decimal_def)
  from c have sign: "\<not> int_space u c" "c \<noteq> 43" "c \<noteq> 45"
    by (simp_all add: decimal_not_int_space decimal_not_sign)
  have scan: "scan_digits u False 0 s = Some (decimal_value u s, [])"
    using all s by (simp add: scan_digits_all_decimal decimal_value_def del: scan_digits.simps)
  from all s have count: "filter (\<lambda>c. decimal_val u c \<noteq> None) cs = cs"
    by (simp add: filter_all)
  from sign scan c count assms(2) show ?thesis
    by (simp add: py_int_str_def s del: scan_digits.simps)
qed

lemma py_int_str_over_limit:
  assumes "all_decimal u s" and "over_limit u (length s)"
  shows "py_int_str u s = None"
proof -
  from assms(1) obtain c cs where s: "s = c # cs" and c: "decimal_val u c \<noteq> None"
    and all: "list_all (\<lambda>c. decimal_val u c \<noteq> None) s"
    by (cases s) (auto simp: all_decimal_def)
  from c have sign: "\<not> int_space u c" "c \<noteq> 43" "c \<noteq> 45"
    by (simp_all add: decimal_not_int_space decimal_not_sign)
  have scan: "scan_digits u False 0 s = Some (decimal_value u s, [])"
    using all s by (simp add: scan_digits_all_decimal decimal_value_def del: scan_digits.simps)
  from all s have count: "filter (\<lambda>c. decimal_val u c \<noteq> None) cs = cs"
    by (simp add: filter_all)
  from sign scan c count assms(2) show ?thesis
    by (simp add: py_int_str_def s del: scan_digits.simps)
qed

lemma py_isdigit_all_decimal: "all_decimal u s \<Longrightarrow> py_isdigit u s"
  by (auto simp: all_decimal_def py_isdigit_def is_digit_def list_all_iff)

lemma zzz_domain_recall_digits:
  assumes "py_int u (dict_get d K_level (JStr [])) = Inr lv"
    and "map_of d K_recall = Some (JStr s)" and "all_decimal u s"
    and "\<not> over_limit u (length s)"
  shows "zzz_domain u d dict_in =
     Inr (dict_in @
           [(K_domain, dict_get d K_domain (JStr [])),
            (K_level, JInt lv),
            (K_attr, dict_get d K_attr (JStr [])),
            (K_recall, JInt (int (decimal_value u s))),
            (K_desc, dict_get d K_desc (JStr [])),
            (K_imageUrl, JStr [])])"
  using assms(1,2) py_isdigit_all_decimal [OF assms(3)] py_int_str_all_decimal [OF assms(3,4)]
  by (simp add: zzz_domain_def Let_def dict_get_def str_of_def py_int_def)

lemma zzz_domain_recall_text:
  assumes "py_int u (dict_get d K_level (JStr [])) = Inr lv"
    and "map_of d K_recall = Some (JStr s)" and "\<not> py_isdigit u s"
  shows "zzz_domain u d dict_in =
     Inr (dict_in @
           [(K_domain, dict_get d K_domain (JStr [])),
            (K_level, JInt lv),
            (K_attr, dict_get d K_attr (JStr [])),
            (K_recall, JStr s),
            (K_desc, dict_get d K_desc (JStr [])),
            (K_imageUrl, JStr [])])"
  using assms by (simp add: zzz_domain_def Let_def dict_get_def str_of_def)

lemma zzz_domain_recall_too_long:
  assumes "py_int u (dict_get d K_level (JStr [])) = Inr lv"
    and "map_of d K_recall = Some (JStr s)" and "all_decimal u s"
    and "over_limit u (length s)"
  shows "zzz_domain u d dict_in = Inl ValueError"
  using assms(1,2) py_isdigit_all_decimal [OF assms(3)] py_int_str_over_limit [OF assms(3,4)]
  by (simp add: zzz_domain_def Let_def dict_get_def str_of_def py_int_def)

lemma work_zzz_single_domain_error:
  assumes "rec_type (JDict d) = JStr S_domain_card"
    and "zzz_domain u d (base_dict ids 0 (JDict d)) = Inl e"
  shows "snd (work_zzz u ids name version [JDict d]) = Inl e"
  using assms by (simp add: work_zzz_def zzz_record_domain)

lemma work_zzz_single_domain:
  assumes "rec_type (JDict d) = JStr S_domain_card"
    and "zzz_domain u d (base_dict ids 0 (JDict d)) = Inr r"
  shows "work_zzz u ids name version [JDict d] =
     ([JDict d],
      Inr (package_json name version
             (empty_acc\<lparr>cfd_domains := [rec_domain (JDict d)], out_domain := [JDict r]\<rparr>)))"
  using assms
  by (simp add: work_zzz_def zzz_record_domain add_unique_def py_in_def empty_acc_def)

lemma work_rrr_only_domain:
  "work_rrr u [package_json name version (empty_acc\<lparr>cfd_domains := c, out_domain := [JDict r]\<rparr>)]
     = Inr [JDict (rrr_domain u r)]"
  by (simp add: work_rrr_def rrr_package_def package_json_def bucket_keys_def dict_get_def
       bucket_entries_def py_truthy_def rrr_record_def empty_acc_def)

lemma recall_of_domain_record:
  assumes "rec_type (JDict d) = JStr S_domain_card"
    and "zzz_domain u d (base_dict ids 0 (JDict d)) =
           Inr (base_dict ids 0 (JDict d) @
                 [(K_domain, dm), (K_level, lv), (K_attr, at), (K_recall, v), (K_desc, ds),
                  (K_imageUrl, im)])"
  shows "recall_packed u ids name version d = Some v"
    and "recall_restored u ids name version d = Some (JStr (py_str u v))"
  using work_zzz_single_domain [OF assms, of name version]
  by (simp_all add: recall_packed_def recall_restored_def work_rrr_only_domain rrr_domain_def
      dict_get_def base_dict_def)

text \<open>
  Claim C3, as the code has it. For a domain card whose level converts to an integer
  that \<open>str()\<close> renders: a recall string of decimal digits, no more of them than the
  interpreter's limit on conversions between \<open>int\<close> and \<open>str\<close> allows, is stored as the
  number it denotes and comes back as the decimal rendering of that number, which is the
  input itself when the input is written in ASCII digits without a leading zero; a recall
  string of more decimal digits than the limit allows ends \<open>work_zzz\<close> with \<open>ValueError\<close>;
  a recall string that \<open>isdigit\<close> rejects, which the empty string is, passes through
  both mappers unchanged.
\<close>

theorem recall_round_trip:
  assumes "rec_type (JDict d) = JStr S_domain_card"
    and "py_int u (dict_get d K_level (JStr [])) = Inr lv"
    and "str_fits u lv"
    and "map_of d K_recall = Some (JStr s)"
  shows "(all_decimal u s \<and> \<not> over_limit u (length s) \<longrightarrow>
            recall_packed u ids name version d = Some (JInt (int (decimal_value u s))) \<and>
            recall_restored u ids name version d = Some (JStr (show_nat (decimal_value u s)))) \<and>
         (canonical_nat s \<and> \<not> over_limit u (length s) \<longrightarrow>
            recall_restored u ids name version d = Some (JStr s)) \<and>
         (all_decimal u s \<and> over_limit u (length s) \<longrightarrow>
            snd (work_zzz u ids name version [JDict d]) = Inl ValueError) \<and>
         (\<not> py_isdigit u s \<longrightarrow>
            recall_packed u ids name version d = Some (JStr s) \<and>
            recall_restored u ids name version d = Some (JStr s))"
proof -
  have digits: "recall_packed u ids name version d = Some (JInt (int (decimal_value u s))) \<and>
      recall_restored u ids name version d = Some (JStr (show_nat (decimal_value u s)))"
    if "all_decimal u s" and "\<not> over_limit u (length s)"
    using recall_of_domain_record [OF assms(1) zzz_domain_recall_digits [OF assms(2,4) that]]
    by (simp add: py_str_def show_int_def)
  have "recall_restored u ids name version d = Some (JStr s)"
    if "canonical_nat s" and "\<not> over_limit u (length s)"
  proof -
    from that(1) have "all_decimal u s" by (rule canonical_all_decimal)
    moreover from that(1) have "show_nat (decimal_value u s) = s"
      by (simp add: decimal_value_ascii show_nat_digits_val canonical_nat_def)
    ultimately show ?thesis using digits that(2) by simp
  qed
  moreover have "snd (work_zzz u ids name version [JDict d]) = Inl ValueError"
    if "all_decimal u s" and "over_limit u (length s)"
    using assms(1) zzz_domain_recall_too_long [OF assms(2,4) that]
    by (rule work_zzz_single_domain_error)
  moreover have "recall_packed u ids name version d = Some (JStr s) \<and>
      recall_restored u ids name version d = Some (JStr s)" if "\<not> py_isdigit u s"
    using recall_of_domain_record [OF assms(1) zzz_domain_recall_text [OF assms(2,4) that]]
    by (simp add: py_str_def)
  ultimately show ?thesis using digits by blast
qed

theorem recall_round_trip_witness:
  "rec_type (JDict (demo_recall [48, 48, 55])) = JStr S_domain_card \<and>
   py_int ascii_env (dict_get (demo_recall [48, 48, 55]) K_level (JStr [])) = Inr 1 \<and>
   str_fits ascii_env 1 \<and>
   all_decimal ascii_env [48, 48, 55] \<and> \<not> over_limit ascii_env (length [48, 48, 55::nat]) \<and>
   recall_packed ascii_env seq_ids [] [] (demo_recall [48, 48, 55]) = Some (JInt 7) \<and>
   recall_restored ascii_env seq_ids [] [] (demo_recall [48, 48, 55]) = Some (JStr [55]) \<and>
   canonical_nat [49, 50] \<and>
   recall_restored ascii_env seq_ids [] [] (demo_recall [49, 50]) = Some (JStr [49, 50]) \<and>
   all_decimal ascii_env (replicate 4301 48) \<and>
   over_limit ascii_env (length (replicate 4301 (48::nat))) \<and>
   snd (work_zzz ascii_env seq_ids [] [] [JDict (demo_recall (replicate 4301 48))]) =
     Inl ValueError \<and>
   \<not> py_isdigit ascii_env [51, 28857] \<and>
   recall_packed ascii_env seq_ids [] [] (demo_recall [51, 28857]) = Some (JStr [51, 28857]) \<and>
   recall_restored ascii_env seq_ids [] [] (demo_recall [51, 28857]) = Some (JStr [51, 28857])"
proof -
  have ty: "rec_type (JDict (demo_recall s)) = JStr S_domain_card" for s
    by (simp add: rec_type_def demo_recall_def dict_get_def)
  have lv: "py_int ascii_env (dict_get (demo_recall s) K_level (JStr [])) = Inr 1" for s
    by (simp add: demo_recall_def dict_get_def py_int_def py_int_str_def int_space_def
        decimal_val_def ascii_env_def over_limit_def)
  have fits: "str_fits ascii_env 1"
    by (simp add: str_fits_def over_limit_def show_nat.simps)
  have l1: "\<not> over_limit ascii_env (length [48, 48, 55::nat])"
    and l2: "\<not> over_limit ascii_env (length [49, 50::nat])"
    by (simp_all add: over_limit_def)
  have rc: "map_of (demo_recall s) K_recall = Some (JStr s)" for s
    by (simp add: demo_recall_def)
  have d1: "all_decimal ascii_env [48, 48, 55]"
    by (simp add: all_decimal_def decimal_val_def)
  have v1: "decimal_value ascii_env [48, 48, 55] = 7"
    by (simp add: decimal_value_def decimal_val_def)
  have d2: "canonical_nat [49, 50]"
    by (simp add: canonical_nat_def)
  have d4: "all_decimal ascii_env (replicate 4301 48)"
    by (simp add: all_decimal_def decimal_val_def list_all_iff)
  have l4: "over_limit ascii_env (length (replicate 4301 (48::nat)))"
    by (simp add: over_limit_def ascii_env_def)
  have d3: "\<not> py_isdigit ascii_env [51, 28857]"
    by (simp add: py_isdigit_def is_digit_def decimal_val_def ascii_env_def)
  show ?thesis
    using recall_round_trip [OF ty lv fits rc, of "[48, 48, 55]" seq_ids "[]" "[]"]
      recall_round_trip [OF ty lv fits rc, of "[49, 50]" seq_ids "[]" "[]"]
      recall_round_trip [OF ty lv fits rc, of "[51, 28857]" seq_ids "[]" "[]"]
      recall_round_trip [OF ty lv fits rc, of "replicate 4301 48" seq_ids "[]" "[]"]
      ty lv d1 v1 d2 d3 d4 fits l1 l2 l4
    by (simp add: show_nat.simps)
qed

text \<open>
  The claim as the specification states it fails on leading zeros: \<open>007\<close> consists of
  digits only and comes back as \<open>7\<close>.
\<close>

theorem recall_round_trip_counterexample:
  "py_isdigit ascii_env [48, 48, 55] \<and>
   recall_restored ascii_env seq_ids [] [] (demo_recall [48, 48, 55]) \<noteq> Some (JStr [48, 48, 55])"
  by (simp add: recall_restored_def zzz_eval demo_recall_def show_nat_small
      work_rrr_def rrr_package_def bucket_keys_def bucket_entries_def rrr_record_def
      rrr_domain_def py_str_def show_int_def show_nat.simps)

section \<open>Malformed input raises\<close>

lemma split_chr_Cons:
  "split_chr c (x # xs) =
     (if x = c then [] # split_chr c xs
      else (x # hd (split_chr c xs)) # tl (split_chr c xs))"
  by (cases "split_chr c xs") simp_all

lemma length_split_chr: "2 \<le> length (split_chr c s) \<longleftrightarrow> c \<in> set s"
proof (induction s)
  case Nil
  then show ?case by simp
next
  case (Cons x xs)
  have "length (split_chr c xs) \<noteq> 0" by simp
  with Cons show ?case
    by (cases "split_chr c xs") (auto simp del: split_chr_not_Nil)
qed

lemma replace_single: "replace [a] [b] s = map (\<lambda>c. if c = a then b else c) s"
  by (induction s) simp_all

lemma split_chr_map:
  assumes "\<And>x. f x = c \<longleftrightarrow> x = c"
  shows "split_chr c (map f s) = map (map f) (split_chr c s)"
proof (induction s)
  case Nil
  then show ?case by simp
next
  case (Cons x xs)
  show ?case
    by (cases "split_chr c xs") (use Cons assms in \<open>auto simp del: split_chr_not_Nil\<close>)
qed

lemma replace_double_newline:
  "hd (split_chr 10 (replace [10, 10] [10] s)) = hd (split_chr 10 s) \<and>
   filter (\<lambda>l. l \<noteq> []) (tl (split_chr 10 (replace [10, 10] [10] s)))
     = filter (\<lambda>l. l \<noteq> []) (tl (split_chr 10 s))"
proof (induction "[10::nat, 10]" "[10::nat]" s rule: replace.induct)
  case 1
  then show ?case by simp
next
  case (2 c cs)
  have whole: "filter (\<lambda>l. l \<noteq> []) (split_chr 10 (replace [10, 10] [10] t))
      = filter (\<lambda>l. l \<noteq> []) (split_chr 10 t)"
    if "hd (split_chr 10 (replace [10, 10] [10] t)) = hd (split_chr 10 t) \<and>
        filter (\<lambda>l. l \<noteq> []) (tl (split_chr 10 (replace [10, 10] [10] t)))
          = filter (\<lambda>l. l \<noteq> []) (tl (split_chr 10 t))" for t
  proof -
    obtain a as where a: "split_chr 10 (replace [10, 10] [10] t) = a # as"
      by (cases "split_chr 10 (replace [10, 10] [10] t)") simp_all
    obtain b bs where b: "split_chr 10 t = b # bs"
      by (cases "split_chr 10 t") simp_all
    from that show ?thesis by (simp add: a b)
  qed
  show ?case
  proof (cases "take 2 (c # cs) = [10, 10]")
    case True
    then obtain cs' where cs: "c = 10" "cs = 10 # cs'"
      by (cases cs) auto
    from True 2(1) have "hd (split_chr 10 (replace [10, 10] [10] cs')) = hd (split_chr 10 cs') \<and>
        filter (\<lambda>l. l \<noteq> []) (tl (split_chr 10 (replace [10, 10] [10] cs')))
          = filter (\<lambda>l. l \<noteq> []) (tl (split_chr 10 cs'))"
      by (simp add: cs)
    then have "filter (\<lambda>l. l \<noteq> []) (split_chr 10 (replace [10, 10] [10] cs'))
      = filter (\<lambda>l. l \<noteq> []) (split_chr 10 cs')" by (rule whole)
    then show ?thesis by (simp add: cs)
  next
    case False
    with 2(2) have IH: "hd (split_chr 10 (replace [10, 10] [10] cs)) = hd (split_chr 10 cs) \<and>
        filter (\<lambda>l. l \<noteq> []) (tl (split_chr 10 (replace [10, 10] [10] cs)))
          = filter (\<lambda>l. l \<noteq> []) (tl (split_chr 10 cs))"
      by simp
    have r: "replace [10, 10] [10] (c # cs) = c # replace [10, 10] [10] cs"
      using False by auto
    show ?thesis
    proof (cases "c = 10")
      case True
      show ?thesis unfolding r using True whole [OF IH]
        by (simp del: replace.simps)
    next
      case False
      show ?thesis unfolding r using False IH
        by (simp add: split_chr_Cons del: replace.simps split_chr.simps)
    qed
  qed
qed

lemma filter_filter_implied:
  "(\<And>x. P x \<Longrightarrow> Q x) \<Longrightarrow> filter P (filter Q xs) = filter P xs"
  by (induction xs) auto

lemma colon_lines_features:
  "filter (\<lambda>l. 65306 \<in> set l) (ancestry_features s) = map (map (\<lambda>c. if c = 58 then 65306 else c)) (colon_lines s)"
proof -
  let ?f = "\<lambda>c::nat. if c = 58 then 65306 else c"
  let ?s' = "map ?f s"
  have hc: "65306 \<in> set (map ?f l) \<longleftrightarrow> has_colon l" for l
    by (auto simp: has_colon_def)
  have ne: "65306 \<in> set l \<Longrightarrow> l \<noteq> []" for l :: ustr by auto
  have "filter (\<lambda>l. l \<noteq> []) (split_chr 10 (replace [10, 10] [10] ?s'))
      = filter (\<lambda>l. l \<noteq> []) (split_chr 10 ?s')"
  proof -
    obtain a as where a: "split_chr 10 (replace [10, 10] [10] ?s') = a # as"
      by (cases "split_chr 10 (replace [10, 10] [10] ?s')") simp_all
    obtain b bs where b: "split_chr 10 ?s' = b # bs"
      by (cases "split_chr 10 ?s'") simp_all
    from replace_double_newline [of ?s'] show ?thesis by (simp add: a b)
  qed
  then have "filter (\<lambda>l. 65306 \<in> set l) (filter (\<lambda>l. l \<noteq> []) (split_chr 10 (replace [10, 10] [10] ?s')))
      = filter (\<lambda>l. 65306 \<in> set l) (filter (\<lambda>l. l \<noteq> []) (split_chr 10 ?s'))"
    by simp
  then have "filter (\<lambda>l. 65306 \<in> set l) (split_chr 10 (replace [10, 10] [10] ?s'))
      = filter (\<lambda>l. 65306 \<in> set l) (split_chr 10 ?s')"
    by (simp only: filter_filter_implied [of "\<lambda>l. 65306 \<in> set l" "\<lambda>l. l \<noteq> []", OF ne])
  also have "split_chr 10 ?s' = map (map ?f) (split_chr 10 s)"
    by (rule split_chr_map) simp
  also have "filter (\<lambda>l. 65306 \<in> set l) (map (map ?f) (split_chr 10 s))
      = map (map ?f) (filter has_colon (split_chr 10 s))"
    by (simp only: filter_map o_def hc)
  finally show ?thesis
    by (simp add: ancestry_features_def replace_single colon_lines_def)
qed
lemma split_chr_length_pos [simp]: "0 < length (split_chr c s)"
  by (cases "split_chr c s") simp_all

lemma split_chr_length_gt1 [simp]: "Suc 0 < length (split_chr c s) \<longleftrightarrow> c \<in> set s"
proof -
  have "2 \<le> length (split_chr c s) \<longleftrightarrow> Suc 0 < length (split_chr c s)" by arith
  with length_split_chr [of c s] show ?thesis by simp
qed

lemma filter_first_two:
  assumes "length (filter P xs) < 2"
  shows "\<not> (Suc 0 < length xs \<and> P (xs ! 0) \<and> P (xs ! Suc 0))"
proof
  assume h: "Suc 0 < length xs \<and> P (xs ! 0) \<and> P (xs ! Suc 0)"
  then obtain a b rest where xs: "xs = a # b # rest"
    by (cases xs; cases "tl xs") auto
  with h have "P a" "P b" by simp_all
  then have "length (filter P xs) = Suc (Suc (length (filter P rest)))"
    by (simp add: xs)
  with assms show False by simp
qed

lemma not_all_three:
  assumes "\<not> (A \<and> B \<and> C)"
    and "\<not> B \<Longrightarrow> P" and "B \<Longrightarrow> \<not> A \<Longrightarrow> P" and "B \<Longrightarrow> A \<Longrightarrow> \<not> C \<Longrightarrow> P"
  shows P
  using assms by blast

lemma zzz_ancestry_IndexError:
  assumes "dict_get d K_desc (JStr []) = JStr s" and "length (colon_lines s) < 2"
  shows "zzz_ancestry ids n d nm dict_in = Inl IndexError"
proof -
  let ?fs = "ancestry_features s"
  have "length (filter (\<lambda>l. 65306 \<in> set l) ?fs) < 2"
    using assms(2) by (simp add: colon_lines_features)
  then have no: "\<not> (Suc 0 < length ?fs \<and> 65306 \<in> set (?fs ! 0) \<and> 65306 \<in> set (?fs ! Suc 0))"
    by (rule filter_first_two)
  have ne: "0 < length ?fs" by (simp add: ancestry_features_def)
  from no show ?thesis
  proof (rule not_all_three)
    assume "65306 \<notin> set (?fs ! 0)"
    with ne assms(1) show ?thesis
      by (simp add: zzz_ancestry_def Let_def str_of_def py_index_def)
  next
    assume "65306 \<in> set (?fs ! 0)" "\<not> Suc 0 < length ?fs"
    with ne assms(1) show ?thesis
      by (simp add: zzz_ancestry_def Let_def str_of_def py_index_def)
  next
    assume "65306 \<in> set (?fs ! 0)" "Suc 0 < length ?fs" "65306 \<notin> set (?fs ! Suc 0)"
    with ne assms(1) show ?thesis
      by (simp add: zzz_ancestry_def Let_def str_of_def py_index_def)
  qed
qed

lemma decimal_val_underscore: "decimal_val u 95 = None"
  by (simp add: decimal_val_def)

lemma split_chr_groups: "g \<in> set (split_chr c xs) \<Longrightarrow> set g \<subseteq> {x \<in> set xs. x \<noteq> c}"
proof (induction xs arbitrary: g)
  case Nil
  then show ?case by simp
next
  case (Cons x xs)
  have ne: "split_chr c xs \<noteq> []" by simp
  show ?case
  proof (cases "x = c")
    case True
    with Cons.prems have "g = [] \<or> g \<in> set (split_chr c xs)"
      by (simp add: split_chr_Cons del: split_chr.simps)
    then show ?thesis
    proof
      assume "g = []"
      then show ?thesis by simp
    next
      assume "g \<in> set (split_chr c xs)"
      then have "set g \<subseteq> {x \<in> set xs. x \<noteq> c}" by (rule Cons.IH)
      then show ?thesis by auto
    qed
  next
    case False
    with Cons.prems have "g = x # hd (split_chr c xs) \<or> g \<in> set (tl (split_chr c xs))"
      by (simp add: split_chr_Cons del: split_chr.simps)
    then show ?thesis
    proof
      assume g: "g = x # hd (split_chr c xs)"
      from ne have "hd (split_chr c xs) \<in> set (split_chr c xs)" by (rule hd_in_set)
      then have "set (hd (split_chr c xs)) \<subseteq> {x \<in> set xs. x \<noteq> c}" by (rule Cons.IH)
      with False show ?thesis unfolding g by auto
    next
      assume "g \<in> set (tl (split_chr c xs))"
      with ne have "g \<in> set (split_chr c xs)" by (rule list.set_sel(2))
      then have "set g \<subseteq> {x \<in> set xs. x \<noteq> c}" by (rule Cons.IH)
      then show ?thesis by auto
    qed
  qed
qed

lemma scan_digits_run:
  "scan_digits u prev acc xs = Some (n, rest) \<Longrightarrow>
   \<exists>run. xs = run @ rest \<and> (prev \<or> run \<noteq> []) \<and>
     (run \<noteq> [] \<longrightarrow> decimal_val u (last run) \<noteq> None) \<and>
     list_all (\<lambda>c. decimal_val u c \<noteq> None \<or> c = 95) run \<and>
     (prev \<or> hd (split_chr 95 run) \<noteq> []) \<and>
     list_all (\<lambda>g. g \<noteq> []) (tl (split_chr 95 run))"
proof (induction xs arbitrary: prev acc)
  case Nil
  then have "prev" "rest = []" by (simp_all split: if_splits)
  then show ?case by (intro exI [of _ "[]"]) simp
next
  case (Cons c cs)
  show ?case
  proof (cases "decimal_val u c")
    case (Some d)
    with Cons.prems have "scan_digits u True (10 * acc + d) cs = Some (n, rest)" by simp
    from Cons.IH [OF this] obtain run where run: "cs = run @ rest"
      "run \<noteq> [] \<longrightarrow> decimal_val u (last run) \<noteq> None"
      "list_all (\<lambda>c. decimal_val u c \<noteq> None \<or> c = 95) run"
      "list_all (\<lambda>g. g \<noteq> []) (tl (split_chr 95 run))"
      by blast
    from Some have c: "c \<noteq> 95" by (auto simp: decimal_val_underscore)
    have "split_chr 95 (c # run) = (c # hd (split_chr 95 run)) # tl (split_chr 95 run)"
      using c by (simp add: split_chr_Cons del: split_chr.simps)
    with run Some show ?thesis
      by (intro exI [of _ "c # run"]) (simp del: split_chr.simps)
  next
    case None
    show ?thesis
    proof (cases "c = 95")
      case True
      with None Cons.prems have prev: "prev" and "scan_digits u False acc cs = Some (n, rest)"
        by (simp_all split: if_splits)
      from Cons.IH [OF this(2)] obtain run where run: "cs = run @ rest" "run \<noteq> []"
        "decimal_val u (last run) \<noteq> None"
        "list_all (\<lambda>c. decimal_val u c \<noteq> None \<or> c = 95) run"
        "hd (split_chr 95 run) \<noteq> []"
        "list_all (\<lambda>g. g \<noteq> []) (tl (split_chr 95 run))"
        by blast
      have sp: "split_chr 95 (c # run) = [] # split_chr 95 run"
        using True by (simp add: split_chr_Cons del: split_chr.simps)
      from run(5,6) have "list_all (\<lambda>g. g \<noteq> []) (split_chr 95 run)"
        by (cases "split_chr 95 run") simp_all
      with run prev True sp show ?thesis
        by (intro exI [of _ "c # run"]) (simp del: split_chr.simps)
    next
      case False
      with None Cons.prems have "prev" "rest = c # cs"
        by (simp_all split: if_splits)
      then show ?thesis by (intro exI [of _ "[]"]) simp
    qed
  qed
qed

lemma rstrip_append_all: "list_all P ys \<Longrightarrow> rstrip P (xs @ ys) = rstrip P xs"
  by (simp add: rstrip_def dropWhile_append list_all_iff)

lemma rstrip_last: "xs \<noteq> [] \<Longrightarrow> \<not> P (last xs) \<Longrightarrow> rstrip P xs = xs"
proof -
  assume "xs \<noteq> []" "\<not> P (last xs)"
  then have "rev xs \<noteq> []" "\<not> P (hd (rev xs))" by (simp_all add: hd_rev)
  then have "dropWhile P (rev xs) = rev xs" by (cases "rev xs") simp_all
  then show ?thesis by (simp add: rstrip_def)
qed

lemma rstrip_Cons: "\<not> P c \<Longrightarrow> rstrip P (c # cs) = c # rstrip P cs"
  by (simp add: rstrip_def dropWhile_append)

lemma filter_none: "list_all (\<lambda>x. \<not> P x) xs \<Longrightarrow> filter P xs = []"
  by (induction xs) simp_all

lemma py_int_str_literal:
  assumes "py_int_str u s = Some i"
  shows "int_literal u s"
proof -
  define t where "t = dropWhile (int_space u) s"
  define body where
    "body = (case t of c # cs \<Rightarrow> if c = 43 \<or> c = 45 then cs else t | [] \<Rightarrow> [])"
  from assms obtain n rest where scan: "scan_digits u False 0 body = Some (n, rest)"
    and sp: "list_all (int_space u) rest"
    and lim: "\<not> over_limit u (length (filter (\<lambda>c. decimal_val u c \<noteq> None) body))"
    unfolding py_int_str_def Let_def t_def [symmetric] body_def [symmetric]
    by (auto split: option.splits if_splits simp del: scan_digits.simps)
  from scan_digits_run [OF scan] obtain run where run: "body = run @ rest" "run \<noteq> []"
    "decimal_val u (last run) \<noteq> None"
    "list_all (\<lambda>c. decimal_val u c \<noteq> None \<or> c = 95) run"
    "hd (split_chr 95 run) \<noteq> []"
    "list_all (\<lambda>g. g \<noteq> []) (tl (split_chr 95 run))"
    by blast
  from run(3) have "\<not> int_space u (last run)" by (rule decimal_not_int_space)
  with run(2) have "rstrip (int_space u) run = run" by (rule rstrip_last)
  with sp have strip: "rstrip (int_space u) body = run"
    by (simp add: run(1) rstrip_append_all)
  obtain c cs where t: "t = c # cs"
    using run(1,2) by (cases t) (simp_all add: body_def)
  have c: "\<not> int_space u c"
    using t by (simp add: t_def dropWhile_eq_Cons_conv)
  have core: "(case rstrip (int_space u) t of
       c # cs \<Rightarrow> if c = 43 \<or> c = 45 then cs else rstrip (int_space u) t
     | [] \<Rightarrow> []) = run"
  proof (cases "c = 43 \<or> c = 45")
    case True
    with t have "body = cs" by (simp add: body_def)
    with strip True c show ?thesis by (simp add: t rstrip_Cons)
  next
    case False
    with t have b: "body = c # cs" by (simp add: body_def)
    with strip c have "c # rstrip (int_space u) cs = run" by (simp add: rstrip_Cons)
    with False c show ?thesis by (auto simp: t rstrip_Cons)
  qed
  have sp': "split_chr 95 run = hd (split_chr 95 run) # tl (split_chr 95 run)"
    by simp
  have groups: "list_all (\<lambda>g. g \<noteq> [] \<and> list_all (\<lambda>c. decimal_val u c \<noteq> None) g)
      (split_chr 95 run)"
    unfolding list_all_iff
  proof (intro ballI conjI)
    fix g assume g: "g \<in> set (split_chr 95 run)"
    with sp' have "g = hd (split_chr 95 run) \<or> g \<in> set (tl (split_chr 95 run))"
      by (metis set_ConsD)
    with run(5,6) show "g \<noteq> []" by (auto simp: list_all_iff)
    fix x assume "x \<in> set g"
    with split_chr_groups [OF g] have "x \<in> set run" "x \<noteq> 95" by auto
    with run(4) show "decimal_val u x \<noteq> None" by (auto simp: list_all_iff)
  qed
  have "filter (\<lambda>c. decimal_val u c \<noteq> None) rest = []"
    using sp by (intro filter_none) (auto simp: list_all_iff dest: decimal_not_int_space)
  moreover have "filter (\<lambda>c. decimal_val u c \<noteq> None) run = filter (\<lambda>c. c \<noteq> 95) run"
    using run(4) by (intro filter_cong) (auto simp: list_all_iff decimal_val_underscore)
  ultimately have "length (filter (\<lambda>c. c \<noteq> 95) run) =
      length (filter (\<lambda>c. decimal_val u c \<noteq> None) body)"
    by (simp add: run(1))
  with lim groups show ?thesis
    unfolding int_literal_def Let_def t_def [symmetric] core by simp
qed

lemma py_int_str_non_numeric: "non_numeric u s \<Longrightarrow> py_int_str u s = None"
  using py_int_str_literal [of u s] by (cases "py_int_str u s") (auto simp: non_numeric_def)

lemma py_int_non_numeric: "non_numeric u s \<Longrightarrow> py_int u (JStr s) = Inl ValueError"
  by (simp add: py_int_def py_int_str_non_numeric)

lemma zzz_profession_bad_hp:
  assumes "dict_get d K_init_hp (JStr []) = JStr a" and "non_numeric u a"
  shows "zzz_profession u d dict_in =
     Inl (if is_str (dict_get d K_domain (JStr [])) then ValueError else AttributeError)"
  using assms
  by (cases "dict_get d K_domain (JStr [])")
    (simp_all add: zzz_profession_def Let_def str_of_def is_str_def py_int_non_numeric)

lemma zzz_profession_bad_evasion:
  assumes "dict_get d K_init_evasion (JStr []) = JStr b" and "non_numeric u b"
  shows "zzz_profession u d dict_in =
     Inl (if \<not> is_str (dict_get d K_domain (JStr [])) then AttributeError
          else case py_int u (dict_get d K_init_hp (JStr [])) of
                 Inl e \<Rightarrow> e
               | Inr i \<Rightarrow> ValueError)"
proof (cases "dict_get d K_domain (JStr [])")
  case (JStr dm)
  with assms show ?thesis
    by (cases "py_int u (dict_get d K_init_hp (JStr []))")
      (simp_all add: zzz_profession_def Let_def str_of_def is_str_def py_int_non_numeric)
qed (simp_all add: zzz_profession_def Let_def str_of_def is_str_def)

lemma zzz_domain_ValueError:
  assumes "dict_get d K_level (JStr []) = JStr a" and "non_numeric u a"
  shows "zzz_domain u d dict_in = Inl ValueError"
  using assms by (simp add: zzz_domain_def py_int_non_numeric)

lemma zzz_loop_Cons_error:
  "snd (zzz_record u ids rec st) = Inl e \<Longrightarrow> snd (zzz_loop u ids (rec # post) st) = Inl e"
  by (cases "zzz_record u ids rec st") (auto split: sum.splits)

lemma zzz_loop_reaches_error:
  assumes "zzz_loop u ids pre st = (pre', Inr st1)"
    and "snd (zzz_record u ids rec st1) = Inl e"
  shows "snd (zzz_loop u ids (pre @ rec # post) st) = Inl e"
  using assms
proof (induction pre arbitrary: st pre')
  case Nil
  from Nil(1) have "st = st1" by simp
  with Nil(2) show ?case by (simp add: zzz_loop_Cons_error del: zzz_loop.simps)
next
  case (Cons p ps)
  from Cons.prems(1) obtain p' ps' st2 where
    r: "zzz_record u ids p st = (p', Inr st2)" and
    l: "zzz_loop u ids ps st2 = (ps', Inr st1)"
    by (rule zzz_loop_Cons_Inr)
  from Cons.IH [OF l Cons.prems(2)] r show ?case
    by (cases "zzz_loop u ids (ps @ rec # post) st2") simp
qed

lemma snd_work_zzz:
  "snd (work_zzz u ids name version data) =
     (case snd (zzz_loop u ids data (empty_acc, 0)) of
        Inl e \<Rightarrow> Inl e
      | Inr st \<Rightarrow> Inr (package_json name version (fst st)))"
  by (simp add: work_zzz_def split: prod.splits sum.splits)

lemma work_zzz_reaches_error:
  assumes "snd (work_zzz u ids name version pre) = Inr pkg"
    and "\<And>st. snd (zzz_record u ids rec st) = Inl e"
  shows "snd (work_zzz u ids name version (pre @ rec # post)) = Inl e"
proof -
  from assms(1) obtain pre' st1 where "zzz_loop u ids pre (empty_acc, 0) = (pre', Inr st1)"
    by (cases "zzz_loop u ids pre (empty_acc, 0)") (auto simp: snd_work_zzz split: sum.splits)
  from zzz_loop_reaches_error [OF this assms(2), of post] show ?thesis
    by (simp add: snd_work_zzz)
qed

text \<open>
  Claim C4. Let the records before \<open>d\<close> convert; what follows \<open>d\<close> does not matter.
  If \<open>d\<close> is an ancestry whose description has fewer than two lines with a colon, the
  call ends with \<open>IndexError\<close>. If \<open>d\<close> is a profession whose starting health is a
  non-numeric string, the call ends with the \<open>ValueError\<close> of \<open>int()\<close>, whatever the
  starting evasion is; if its starting evasion is a non-numeric string, the call ends
  with the error of the starting health when that does not convert either, and with
  \<open>ValueError\<close> when it does. In both cases a domain field that is not a string has
  raised \<open>AttributeError\<close> before \<open>int()\<close> is reached. If \<open>d\<close> is a domain card whose
  level is a non-numeric string, the call ends with \<open>ValueError\<close>. A field that is absent
  reads as the empty string, which is non-numeric.
\<close>

theorem malformed_input_raises:
  assumes "snd (work_zzz u ids name version pre) = Inr pkg"
  shows "(rec_type (JDict d) = JStr S_ancestry \<and> dict_get d K_desc (JStr []) = JStr s \<and>
          length (colon_lines s) < 2 \<longrightarrow>
            snd (work_zzz u ids name version (pre @ JDict d # post)) = Inl IndexError) \<and>
         (rec_type (JDict d) = JStr S_profession \<and> dict_get d K_init_hp (JStr []) = JStr a \<and>
          non_numeric u a \<longrightarrow>
            snd (work_zzz u ids name version (pre @ JDict d # post)) =
              Inl (if is_str (dict_get d K_domain (JStr [])) then ValueError
                   else AttributeError)) \<and>
         (rec_type (JDict d) = JStr S_profession \<and>
          dict_get d K_init_evasion (JStr []) = JStr b \<and> non_numeric u b \<longrightarrow>
            snd (work_zzz u ids name version (pre @ JDict d # post)) =
              Inl (if \<not> is_str (dict_get d K_domain (JStr [])) then AttributeError
                   else case py_int u (dict_get d K_init_hp (JStr [])) of
                          Inl e \<Rightarrow> e
                        | Inr i \<Rightarrow> ValueError)) \<and>
         (rec_type (JDict d) = JStr S_domain_card \<and> dict_get d K_level (JStr []) = JStr l \<and>
          non_numeric u l \<longrightarrow>
            snd (work_zzz u ids name version (pre @ JDict d # post)) = Inl ValueError)"
proof (intro conjI impI)
  assume h: "rec_type (JDict d) = JStr S_ancestry \<and> dict_get d K_desc (JStr []) = JStr s \<and>
          length (colon_lines s) < 2"
  have "snd (zzz_record u ids (JDict d) st) = Inl IndexError" for st
    using h by (cases st) (simp add: zzz_record_ancestry zzz_ancestry_IndexError)
  with assms show "snd (work_zzz u ids name version (pre @ JDict d # post)) = Inl IndexError"
    by (rule work_zzz_reaches_error)
next
  let ?e = "if is_str (dict_get d K_domain (JStr [])) then ValueError else AttributeError"
  assume h: "rec_type (JDict d) = JStr S_profession \<and> dict_get d K_init_hp (JStr []) = JStr a \<and>
          non_numeric u a"
  then have ty: "rec_type (JDict d) = JStr S_profession"
    and hp: "dict_get d K_init_hp (JStr []) = JStr a" and nn: "non_numeric u a"
    by simp_all
  have "zzz_profession u d dict_in = Inl ?e" for dict_in
    using hp nn by (rule zzz_profession_bad_hp)
  with ty have "snd (zzz_record u ids (JDict d) st) = Inl ?e" for st
    by (cases st) (simp add: zzz_record_profession)
  with assms show "snd (work_zzz u ids name version (pre @ JDict d # post)) = Inl ?e"
    by (rule work_zzz_reaches_error)
next
  let ?e = "if \<not> is_str (dict_get d K_domain (JStr [])) then AttributeError
            else case py_int u (dict_get d K_init_hp (JStr [])) of
                   Inl e \<Rightarrow> e
                 | Inr i \<Rightarrow> ValueError"
  assume h: "rec_type (JDict d) = JStr S_profession \<and>
          dict_get d K_init_evasion (JStr []) = JStr b \<and> non_numeric u b"
  then have ty: "rec_type (JDict d) = JStr S_profession"
    and ev: "dict_get d K_init_evasion (JStr []) = JStr b" and nn: "non_numeric u b"
    by simp_all
  have "zzz_profession u d dict_in = Inl ?e" for dict_in
    using ev nn by (rule zzz_profession_bad_evasion)
  with ty have "snd (zzz_record u ids (JDict d) st) = Inl ?e" for st
    by (cases st) (simp add: zzz_record_profession)
  with assms show "snd (work_zzz u ids name version (pre @ JDict d # post)) = Inl ?e"
    by (rule work_zzz_reaches_error)
next
  assume h: "rec_type (JDict d) = JStr S_domain_card \<and> dict_get d K_level (JStr []) = JStr l \<and>
          non_numeric u l"
  have "snd (zzz_record u ids (JDict d) st) = Inl ValueError" for st
    using h by (cases st) (simp add: zzz_record_domain zzz_domain_ValueError)
  with assms show "snd (work_zzz u ids name version (pre @ JDict d # post)) = Inl ValueError"
    by (rule work_zzz_reaches_error)
qed

lemmas literal_eval = non_numeric_def int_literal_def rstrip_def Let_def int_space_def
  decimal_val_def over_limit_def ascii_env_def

theorem malformed_input_raises_witness:
  "snd (work_zzz ascii_env seq_ids [] [] [demo_variant, JDict demo_one_line, demo_community]) =
     Inl IndexError \<and>
   non_numeric ascii_env [120] \<and>
   snd (work_zzz ascii_env seq_ids [] [] [demo_variant, JDict demo_bad_hp, demo_community]) =
     Inl ValueError \<and>
   non_numeric ascii_env [49, 95, 95, 50] \<and>
   snd (work_zzz ascii_env seq_ids [] [] [demo_variant, JDict demo_bad_evasion, demo_community]) =
     Inl ValueError \<and>
   non_numeric ascii_env [49, 32, 50] \<and>
   snd (work_zzz ascii_env seq_ids [] [] [demo_variant, JDict demo_bad_level, demo_community]) =
     Inl ValueError"
proof -
  have pre: "snd (work_zzz ascii_env seq_ids [] [] [demo_variant]) =
      Inr (projr (snd (work_zzz ascii_env seq_ids [] [] [demo_variant])))"
    by (simp add: zzz_eval demo_variant_def show_nat_small upt_rec)
  have anc: "rec_type (JDict demo_one_line) = JStr S_ancestry \<and>
      dict_get demo_one_line K_desc (JStr []) = JStr [97, 65306, 98] \<and>
      length (colon_lines [97, 65306, 98]) < 2"
    by (simp add: rec_type_def demo_one_line_def dict_get_def colon_lines_def has_colon_def)
  have n1: "non_numeric ascii_env [120]"
    and n2: "non_numeric ascii_env [49, 95, 95, 50]"
    and n3: "non_numeric ascii_env [49, 32, 50]"
    by (simp_all add: literal_eval)
  have hp: "rec_type (JDict demo_bad_hp) = JStr S_profession \<and>
      dict_get demo_bad_hp K_init_hp (JStr []) = JStr [120] \<and>
      is_str (dict_get demo_bad_hp K_domain (JStr []))"
    by (simp add: rec_type_def demo_bad_hp_def dict_get_def is_str_def)
  have ev: "rec_type (JDict demo_bad_evasion) = JStr S_profession \<and>
      dict_get demo_bad_evasion K_init_evasion (JStr []) = JStr [49, 95, 95, 50] \<and>
      is_str (dict_get demo_bad_evasion K_domain (JStr [])) \<and>
      py_int ascii_env (dict_get demo_bad_evasion K_init_hp (JStr [])) = Inr 6"
    by (simp add: rec_type_def demo_bad_evasion_def dict_get_def is_str_def py_int_def)
  have dom: "rec_type (JDict demo_bad_level) = JStr S_domain_card \<and>
      dict_get demo_bad_level K_level (JStr []) = JStr [49, 32, 50]"
    by (simp add: rec_type_def demo_bad_level_def dict_get_def)
  from malformed_input_raises [OF pre, where d = demo_one_line and s = "[97, 65306, 98]"
        and post = "[demo_community]"]
    malformed_input_raises [OF pre, where d = demo_bad_hp and a = "[120]"
        and post = "[demo_community]"]
    malformed_input_raises [OF pre, where d = demo_bad_evasion and b = "[49, 95, 95, 50]"
        and post = "[demo_community]"]
    malformed_input_raises [OF pre, where d = demo_bad_level and l = "[49, 32, 50]"
        and post = "[demo_community]"]
    anc n1 n2 n3 hp ev dom
  show ?thesis by simp
qed

section \<open>The order of the output of the rrr to zzz mapper\<close>



lemma race_get_None: "race_get races k = None \<longleftrightarrow> \<not> py_in k (map fst races)"
  by (induction races) (auto simp: py_in_def)


lemma race_get_Some_mem: "race_get races k = Some r \<Longrightarrow> \<exists>k'. (k', r) \<in> set races"
  by (induction races) (auto split: if_splits)












section \<open>The keyword extractor changes its input\<close>

lemma keys_dict_pop: "fst ` set (dict_pop d k) = fst ` set d - {k}"
  by (auto simp: dict_pop_def)

lemma keyword_record_fst:
  "keyword_record u (JDict d) = (rec', r) \<Longrightarrow> rec' = stripped (JDict d)"
  by (auto simp: keyword_record_def Let_def stripped_def)

lemma keyword_record_not_dict:
  "(\<And>d. rec \<noteq> JDict d) \<Longrightarrow> snd (keyword_record u rec) = Inl AttributeError"
  by (cases rec) (auto simp: keyword_record_def)

lemma keyword_record_Inr:
  assumes "keyword_record u rec = (rec', Inr dic)"
  shows "rec' = stripped rec"
proof (cases rec)
  case (JDict d)
  with assms show ?thesis by (simp add: keyword_record_fst)
qed (use assms in \<open>simp_all add: keyword_record_def\<close>)

lemma keyword_loop_Inr:
  "keyword_loop u recs = (recs', Inr lst) \<Longrightarrow> recs' = map stripped recs"
proof (induction recs arbitrary: recs' lst)
  case Nil
  then show ?case by simp
next
  case (Cons rec rest)
  obtain rec1 r1 where k: "keyword_record u rec = (rec1, r1)"
    by (cases "keyword_record u rec")
  obtain rest1 r2 where l: "keyword_loop u rest = (rest1, r2)"
    by (cases "keyword_loop u rest")
  from Cons.prems k l obtain dic lst1 where r1: "r1 = Inr dic" and r2: "r2 = Inr lst1"
    and recs': "recs' = rec1 # rest1"
    by (cases r1; cases r2) auto
  from k r1 have "rec1 = stripped rec" by (simp add: keyword_record_Inr)
  moreover from l r2 have "rest1 = map stripped rest" by (simp add: Cons.IH)
  ultimately show ?case by (simp add: recs')
qed

lemma keyword_loop_all_dicts:
  "keyword_loop u xs = (xs', Inr lst) \<Longrightarrow> x \<in> set xs \<Longrightarrow> \<exists>d. x = JDict d"
proof (induction xs arbitrary: xs' lst)
  case Nil
  then show ?case by simp
next
  case (Cons y ys)
  obtain y1 r1 where k: "keyword_record u y = (y1, r1)" by (cases "keyword_record u y")
  obtain ys1 r2 where m: "keyword_loop u ys = (ys1, r2)" by (cases "keyword_loop u ys")
  from Cons.prems(1) k m obtain dic lst1 where r1: "r1 = Inr dic" and r2: "r2 = Inr lst1"
    by (cases r1; cases r2) auto
  show ?case
  proof (cases "x = y")
    case True
    show ?thesis
    proof (rule ccontr)
      assume "\<not> (\<exists>d. x = JDict d)"
      with True have "snd (keyword_record u y) = Inl AttributeError"
        by (intro keyword_record_not_dict) auto
      with k r1 show False by simp
    qed
  next
    case False
    with Cons.prems(2) have "x \<in> set ys" by simp
    with m [unfolded r2] show ?thesis by (rule Cons.IH)
  qed
qed

lemma lacks_stripped_dict:
  "lacks (stripped (JDict d)) K_orig \<and> lacks (stripped (JDict d)) K_background \<and>
   lacks (stripped (JDict d)) K_relation \<and> lacks (stripped (JDict d)) K_type"
  by (simp add: stripped_def lacks_def keys_dict_pop)

lemma lacks_stripped:
  assumes "\<exists>d. rec = JDict d"
  shows "lacks (stripped rec) K_orig \<and> lacks (stripped rec) K_background \<and>
         lacks (stripped rec) K_relation \<and> lacks (stripped rec) K_type"
proof -
  from assms obtain d where "rec = JDict d" ..
  then show ?thesis by (simp only: lacks_stripped_dict)
qed

text \<open>
  Claim C10. Whenever \<open>work\<close> returns, every record it was given is the record without
  the original name, the background questions, the relationship questions and the type:
  the caller's list holds the stripped records.
\<close>

theorem keyword_work_strips_input:
  assumes "work u data = (data', Inr out)"
  shows "records_of data' = map stripped (records_of data) \<and>
         list_all (\<lambda>rec. lacks rec K_orig \<and> lacks rec K_background \<and>
                          lacks rec K_relation \<and> lacks rec K_type) (records_of data')"
proof (cases data)
  case (JDict d)
  obtain recs r where l: "keyword_loop u [data] = (recs, r)"
    by (cases "keyword_loop u [data]")
  obtain rec1 r1 where k: "keyword_record u data = (rec1, r1)"
    by (cases "keyword_record u data")
  from l k have recs: "recs = [rec1]"
    by (cases r1) auto
  from assms JDict l recs have d': "data' = rec1" and r: "r = Inr out"
    by (simp_all add: work_def)
  from l [unfolded r] have "recs = map stripped [data]" by (rule keyword_loop_Inr)
  with recs have "rec1 = stripped data" by simp
  with d' JDict show ?thesis
    using lacks_stripped_dict [of d]
    by (simp add: records_of_def stripped_def)
next
  case (JList xs)
  obtain xs' r where l: "keyword_loop u xs = (xs', r)"
    by (cases "keyword_loop u xs")
  from assms JList l have d': "data' = JList xs'" and r: "r = Inr out"
    by (simp_all add: work_def)
  from l [unfolded r] have xs': "xs' = map stripped xs" by (rule keyword_loop_Inr)
  have dicts: "\<exists>d. x = JDict d" if "x \<in> set xs" for x
    using l [unfolded r] that by (rule keyword_loop_all_dicts)
  have "list_all (\<lambda>rec. lacks rec K_orig \<and> lacks rec K_background \<and>
                          lacks rec K_relation \<and> lacks rec K_type) (map stripped xs)"
    unfolding list_all_iff using dicts lacks_stripped by auto
  with d' xs' JList show ?thesis by (simp add: records_of_def)
qed (use assms in \<open>auto simp: work_def records_of_def split: if_splits\<close>)

theorem keyword_work_strips_input_witness:
  "fst (work ascii_env (JList [demo_card])) = JList [stripped demo_card] \<and>
   stripped demo_card \<noteq> demo_card \<and>
   lacks (stripped demo_card) K_orig \<and> lacks (stripped demo_card) K_type"
proof -
  have run: "work ascii_env (JList [demo_card]) =
      (fst (work ascii_env (JList [demo_card])), Inr (projr (snd (work ascii_env (JList [demo_card])))))"
    by (simp add: work_def keyword_record_def demo_card_def dict_get_def dict_pop_def Let_def
        str_operand_def)
  have "stripped demo_card \<noteq> demo_card"
    by (simp add: stripped_def demo_card_def dict_pop_def)
  moreover have "fst (work ascii_env (JList [demo_card])) = JList (records_of (fst (work ascii_env (JList [demo_card]))))"
    by (simp add: work_def records_of_def split: prod.splits)
  ultimately show ?thesis
    using keyword_work_strips_input [OF run]
    by (simp add: records_of_def)
qed

section \<open>Fear and cost of an environment trait\<close>

lemma match_lit_Some: "match_lit lit s = Some r \<longleftrightarrow> s = lit @ r"
proof
  assume "match_lit lit s = Some r"
  then have "take (length lit) s = lit" "r = drop (length lit) s"
    by (simp_all add: match_lit_def split: if_splits)
  then show "s = lit @ r" by (metis append_take_drop_id)
next
  assume "s = lit @ r"
  then show "match_lit lit s = Some r" by (simp add: match_lit_def)
qed

lemma first_some_Some: "first_some f xs = Some y \<Longrightarrow> \<exists>x \<in> set xs. f x = Some y"
  by (induction xs) (auto split: option.splits)

lemma first_some_None: "first_some f xs = None \<longleftrightarrow> (\<forall>x \<in> set xs. f x = None)"
  by (induction xs) (auto split: option.splits)

lemma first_some_hit: "x \<in> set xs \<Longrightarrow> f x \<noteq> None \<Longrightarrow> first_some f xs \<noteq> None"
  by (simp add: first_some_None) blast

lemma greedy_counts_set:
  "i \<in> set (greedy_counts lo P s) \<longleftrightarrow> lo \<le> i \<and> i \<le> length (takeWhile P s)"
  by (auto simp: greedy_counts_def)

lemma take_takeWhile: "i \<le> length (takeWhile P s) \<Longrightarrow> take i s = take i (takeWhile P s)"
proof (induction s arbitrary: i)
  case Nil
  then show ?case by simp
next
  case (Cons x xs)
  then show ?case by (cases i) (auto split: if_splits)
qed

lemma take_within_takeWhile:
  assumes "i \<le> length (takeWhile P s)"
  shows "list_all P (take i s)" and "i \<le> length s"
proof -
  from assms have "take i s = take i (takeWhile P s)" by (rule take_takeWhile)
  then have "set (take i s) \<subseteq> set (takeWhile P s)" by (simp add: set_take_subset)
  then show "list_all P (take i s)" by (auto simp: list_all_iff dest: set_takeWhileD)
  from assms show "i \<le> length s" using length_takeWhile_le [of P s] by simp
qed

lemma prefix_within_takeWhile: "list_all P xs \<Longrightarrow> length xs \<le> length (takeWhile P (xs @ ys))"
  by (induction xs) simp_all

lemma match_phrase_sound:
  assumes "match_phrase a b u t = Some n"
  shows "phrase_at a b u t n"
proof -
  from assms obtain r1 where r1: "match_lit a t = Some r1"
    by (cases "match_lit a t") (simp_all add: match_phrase_def)
  then have t: "t = a @ r1" by (simp add: match_lit_Some)
  from assms r1 have "first_some (\<lambda>i.
            first_some (\<lambda>j.
              first_some (\<lambda>k.
                case match_lit b (drop k (drop j (drop i r1))) of
                  None \<Rightarrow> None
                | Some rest \<Rightarrow> Some (take j (drop i r1)))
                (greedy_counts 0 (is_space u) (drop j (drop i r1))))
              (greedy_counts 1 (is_decimal u) (drop i r1)))
            (greedy_counts 0 (is_space u) r1) = Some n"
    by (simp add: match_phrase_def)
  from first_some_Some [OF this] obtain i where
    i: "i \<in> set (greedy_counts 0 (is_space u) r1)" and
    fi: "first_some (\<lambda>j.
              first_some (\<lambda>k.
                case match_lit b (drop k (drop j (drop i r1))) of
                  None \<Rightarrow> None
                | Some rest \<Rightarrow> Some (take j (drop i r1)))
                (greedy_counts 0 (is_space u) (drop j (drop i r1))))
              (greedy_counts 1 (is_decimal u) (drop i r1)) = Some n"
    by blast
  from first_some_Some [OF fi] obtain j where
    j: "j \<in> set (greedy_counts 1 (is_decimal u) (drop i r1))" and
    fj: "first_some (\<lambda>k.
                case match_lit b (drop k (drop j (drop i r1))) of
                  None \<Rightarrow> None
                | Some rest \<Rightarrow> Some (take j (drop i r1)))
                (greedy_counts 0 (is_space u) (drop j (drop i r1))) = Some n"
    by blast
  from first_some_Some [OF fj] obtain k where
    k: "k \<in> set (greedy_counts 0 (is_space u) (drop j (drop i r1)))" and
    fk: "(case match_lit b (drop k (drop j (drop i r1))) of
                  None \<Rightarrow> None
                | Some rest \<Rightarrow> Some (take j (drop i r1))) = Some n"
    by blast
  from fk obtain post where post: "match_lit b (drop k (drop j (drop i r1))) = Some post"
    and n: "n = take j (drop i r1)"
    by (cases "match_lit b (drop k (drop j (drop i r1)))") simp_all
  let ?r2 = "drop i r1" and ?r3 = "drop j (drop i r1)"
  from i have sp1: "list_all (is_space u) (take i r1)"
    by (simp add: greedy_counts_set take_within_takeWhile)
  from j have j1: "1 \<le> j" and jn: "j \<le> length (takeWhile (is_decimal u) ?r2)"
    by (simp_all add: greedy_counts_set)
  from jn have dec: "list_all (is_decimal u) n" and jl: "j \<le> length ?r2"
    unfolding n by (rule take_within_takeWhile)+
  from j1 jl have ne: "n \<noteq> []" unfolding n by auto
  from k have sp2: "list_all (is_space u) (take k ?r3)"
    by (simp add: greedy_counts_set take_within_takeWhile)
  from post have "drop k ?r3 = b @ post" by (simp add: match_lit_Some)
  then have "?r3 = take k ?r3 @ b @ post" by (metis append_take_drop_id)
  then have "?r2 = n @ take k ?r3 @ b @ post" unfolding n by (metis append_take_drop_id)
  then have "r1 = take i r1 @ n @ take k ?r3 @ b @ post" by (metis append_take_drop_id)
  with t have "t = a @ take i r1 @ n @ take k ?r3 @ b @ post" by simp
  with sp1 ne dec sp2 show ?thesis
    unfolding phrase_at_def by blast
qed

lemma match_phrase_complete:
  assumes "phrase_at a b u t n"
  shows "match_phrase a b u t \<noteq> None"
proof -
  from assms obtain sp1 sp2 post where
    t: "t = a @ sp1 @ n @ sp2 @ b @ post" and sp1: "list_all (is_space u) sp1" and
    ne: "n \<noteq> []" and dec: "list_all (is_decimal u) n" and sp2: "list_all (is_space u) sp2"
    unfolding phrase_at_def by blast
  let ?r1 = "sp1 @ n @ sp2 @ b @ post"
  let ?i = "length sp1" and ?j = "length n" and ?k = "length sp2"
  have r1: "match_lit a t = Some ?r1" by (simp add: match_lit_Some t)
  have i: "?i \<in> set (greedy_counts 0 (is_space u) ?r1)"
    using sp1 by (simp add: greedy_counts_set prefix_within_takeWhile)
  have r2: "drop ?i ?r1 = n @ sp2 @ b @ post" by simp
  have j: "?j \<in> set (greedy_counts 1 (is_decimal u) (drop ?i ?r1))"
    unfolding r2 using dec ne
    by (simp add: greedy_counts_set prefix_within_takeWhile Suc_le_eq)
  have r3: "drop ?j (drop ?i ?r1) = sp2 @ b @ post" by simp
  have k: "?k \<in> set (greedy_counts 0 (is_space u) (drop ?j (drop ?i ?r1)))"
    unfolding r3 using sp2 by (simp add: greedy_counts_set prefix_within_takeWhile)
  have "match_lit b (drop ?k (drop ?j (drop ?i ?r1))) = Some post"
    by (simp add: match_lit_Some)
  then have fk: "(case match_lit b (drop ?k (drop ?j (drop ?i ?r1))) of
                  None \<Rightarrow> None
                | Some rest \<Rightarrow> Some (take ?j (drop ?i ?r1))) \<noteq> None"
    by simp
  have fj: "first_some (\<lambda>k.
                case match_lit b (drop k (drop ?j (drop ?i ?r1))) of
                  None \<Rightarrow> None
                | Some rest \<Rightarrow> Some (take ?j (drop ?i ?r1)))
                (greedy_counts 0 (is_space u) (drop ?j (drop ?i ?r1))) \<noteq> None"
    using k fk by (rule first_some_hit)
  have fi: "first_some (\<lambda>j.
              first_some (\<lambda>k.
                case match_lit b (drop k (drop j (drop ?i ?r1))) of
                  None \<Rightarrow> None
                | Some rest \<Rightarrow> Some (take j (drop ?i ?r1)))
                (greedy_counts 0 (is_space u) (drop j (drop ?i ?r1))))
              (greedy_counts 1 (is_decimal u) (drop ?i ?r1)) \<noteq> None"
    using j fj by (rule first_some_hit)
  have "first_some (\<lambda>i.
            first_some (\<lambda>j.
              first_some (\<lambda>k.
                case match_lit b (drop k (drop j (drop i ?r1))) of
                  None \<Rightarrow> None
                | Some rest \<Rightarrow> Some (take j (drop i ?r1)))
                (greedy_counts 0 (is_space u) (drop j (drop i ?r1))))
              (greedy_counts 1 (is_decimal u) (drop i ?r1)))
            (greedy_counts 0 (is_space u) ?r1) \<noteq> None"
    using i fi by (rule first_some_hit)
  with r1 show ?thesis by (simp add: match_phrase_def)
qed

lemma cost_match_at_iff: "cost_match_at u t \<noteq> None \<longleftrightarrow> (\<exists>n. matches_at u t n)"
  unfolding cost_match_at_def matches_at_def
  using match_phrase_sound match_phrase_complete by (metis not_Some_eq)

lemma cost_match_at_sound: "cost_match_at u t = Some n \<Longrightarrow> matches_at u t n"
  unfolding cost_match_at_def matches_at_def by (rule match_phrase_sound)

lemma re_search_Some:
  "re_search u s = Some n \<Longrightarrow>
   \<exists>k. costs_at u s k n \<and> (\<forall>k' n'. costs_at u s k' n' \<longrightarrow> k \<le> k')"
proof (induction s)
  case Nil
  then have "matches_at u [] n" by (simp add: cost_match_at_sound)
  then have "costs_at u [] 0 n" by (simp add: costs_at_def)
  then show ?case by blast
next
  case (Cons c cs)
  show ?case
  proof (cases "cost_match_at u (c # cs)")
    case (Some g)
    with Cons.prems have "g = n" by simp
    with Some have "costs_at u (c # cs) 0 n" by (simp add: costs_at_def cost_match_at_sound)
    then show ?thesis by blast
  next
    case None
    with Cons.prems have "re_search u cs = Some n" by simp
    from Cons.IH [OF this] obtain k where k: "costs_at u cs k n"
      and least: "\<forall>k' n'. costs_at u cs k' n' \<longrightarrow> k \<le> k'" by blast
    from k have "costs_at u (c # cs) (Suc k) n" by (simp add: costs_at_def)
    moreover have "Suc k \<le> k'" if h: "costs_at u (c # cs) k' n'" for k' n'
    proof (cases k')
      case 0
      with h have "matches_at u (c # cs) n'" by (simp add: costs_at_def)
      then have "cost_match_at u (c # cs) \<noteq> None" unfolding cost_match_at_iff by blast
      with None show ?thesis by simp
    next
      case (Suc m)
      with h have "costs_at u cs m n'" by (simp add: costs_at_def)
      with least have "k \<le> m" by blast
      with Suc show ?thesis by simp
    qed
    ultimately show ?thesis by blast
  qed
qed

lemma re_search_None: "re_search u s = None \<Longrightarrow> \<not> (\<exists>k n. costs_at u s k n)"
proof (induction s)
  case Nil
  then have "cost_match_at u [] = None" by simp
  then have "\<not> (\<exists>n. matches_at u [] n)" using cost_match_at_iff [of u "[]"] by simp
  then show ?case by (simp add: costs_at_def)
next
  case (Cons c cs)
  from Cons.prems have here: "cost_match_at u (c # cs) = None" and rest: "re_search u cs = None"
    by (simp_all split: option.splits)
  from here have no0: "\<not> (\<exists>n. matches_at u (c # cs) n)"
    using cost_match_at_iff [of u "c # cs"] by simp
  from Cons.IH [OF rest] have no: "\<not> (\<exists>k n. costs_at u cs k n)" .
  show ?case
  proof
    assume "\<exists>k n. costs_at u (c # cs) k n"
    then obtain k n where h: "costs_at u (c # cs) k n" by blast
    show False
    proof (cases k)
      case 0
      with h no0 show False by (simp add: costs_at_def)
    next
      case (Suc m)
      with h have "costs_at u cs m n" by (simp add: costs_at_def)
      with no show False by blast
    qed
  qed
qed

lemma env_trait_fear_cost:
  assumes "env_trait u trait = Inr out"
  shows "fear_cost u trait out"
proof -
  from assms obtain t where t: "trait = JDict t"
    by (cases trait) (simp_all add: env_trait_def)
  from assms t obtain desc where d: "dict_get t K_trait_desc (JStr []) = JStr desc"
    by (cases "dict_get t K_trait_desc (JStr [])")
       (simp_all add: env_trait_def Let_def str_operand_def)
  have td: "trait_description trait = desc" by (simp add: trait_description_def t d)
  from assms t d have fear: "pkg_field out K_fear = JBool (re_search u desc \<noteq> None)"
    and cost: "pkg_field out K_cost = JStr (case re_search u desc of Some g \<Rightarrow> g | None \<Rightarrow> [48])"
    by (auto simp: env_trait_def Let_def str_operand_def pkg_field_def dict_get_def)
  show ?thesis
  proof (cases "re_search u desc")
    case None
    from re_search_None [OF None] fear cost None show ?thesis
      by (simp add: fear_cost_def td)
  next
    case (Some n)
    from re_search_Some [OF Some] obtain k where k: "costs_at u desc k n"
      and least: "\<forall>k' n'. costs_at u desc k' n' \<longrightarrow> k \<le> k'" by blast
    from k have ex: "\<exists>k n. costs_at u desc k n" by blast
    from k least cost Some have
      "\<exists>k n. costs_at u desc k n \<and> pkg_field out K_cost = JStr n \<and>
             (\<forall>k' n'. costs_at u desc k' n' \<longrightarrow> k \<le> k')"
      by (intro exI [of _ k] exI [of _ n]) simp
    with ex fear Some show ?thesis
      by (simp add: fear_cost_def td)
  qed
qed

lemma traverse_list_all2:
  assumes "\<And>x y. f x = Inr y \<Longrightarrow> P x y"
  shows "traverse f xs = Inr ys \<Longrightarrow> list_all2 P xs ys"
proof (induction xs arbitrary: ys)
  case Nil
  then show ?case by simp
next
  case (Cons x xs)
  from Cons.prems obtain y ys' where "f x = Inr y" "traverse f xs = Inr ys'" "ys = y # ys'"
    by (auto simp: ebind_eq_Inr)
  with assms Cons.IH show ?case by simp
qed

text \<open>
  Claim C6. Whenever \<open>convert_environment\<close> returns, every trait of the input has its
  output trait at the same position, and for each pair: if the description contains the
  phrase, \<open>fear\<close> is true and \<open>cost\<close> is the number of its leftmost occurrence; if it
  does not, \<open>fear\<close> is false and \<open>cost\<close> is the string \<open>0\<close>.
\<close>

theorem environment_fear_cost:
  assumes "convert_environment u src = Inr dest"
    and "pkg_field src K_trait = JList traits"
  shows "list_all2 (fear_cost u) traits (list_of (pkg_field dest K_traits))"
proof -
  from assms(1) obtain s where s: "src = JDict s"
    by (cases src) (simp_all add: convert_environment_def)
  from assms(2) s have tr: "dict_get s K_trait (JList []) = JList traits"
    by (simp add: pkg_field_def dict_get_def split: option.splits)
  from assms(1) s tr obtain outs where outs: "traverse (env_trait u) traits = Inr outs"
    and dest: "pkg_field dest K_traits = JList outs"
    by (auto simp: convert_environment_def py_iter_def ebind_eq_Inr pkg_field_def dict_get_def)
  from traverse_list_all2 [of "env_trait u" "fear_cost u", OF env_trait_fear_cost outs]
  show ?thesis by (simp add: dest list_of_def)
qed
lemmas rink_eval = convert_environment_def py_iter_def env_trait_def cost_match_at_def
  match_phrase_def match_lit_def greedy_counts_def is_space_def is_decimal_def decimal_val_def
  ascii_env_def dict_get_def str_operand_def py_truthy_def pkg_field_def list_of_def Let_def upt_rec

theorem environment_fear_cost_witness:
  "list_all2 (fear_cost ascii_env)
     [JDict [(K_name, JStr [97]),
             (K_trait_desc, JStr [33457, 36153, 50, 24656, 24807, 28857, 35302, 21457])],
      JDict [(K_name, JStr [98]), (K_trait_desc, JStr [120])]]
     (list_of (pkg_field (projr (convert_environment ascii_env demo_environment)) K_traits)) \<and>
   map (\<lambda>t. pkg_field t K_fear)
     (list_of (pkg_field (projr (convert_environment ascii_env demo_environment)) K_traits))
     = [JBool True, JBool False] \<and>
   map (\<lambda>t. pkg_field t K_cost)
     (list_of (pkg_field (projr (convert_environment ascii_env demo_environment)) K_traits))
     = [JStr [50], JStr [48]]"
proof -
  have run: "convert_environment ascii_env demo_environment =
      Inr (projr (convert_environment ascii_env demo_environment))"
    by (simp add: rink_eval demo_environment_def)
  have traits: "pkg_field demo_environment K_trait =
      JList [JDict [(K_name, JStr [97]),
             (K_trait_desc, JStr [33457, 36153, 50, 24656, 24807, 28857, 35302, 21457])],
      JDict [(K_name, JStr [98]), (K_trait_desc, JStr [120])]]"
    by (simp add: demo_environment_def pkg_field_def dict_get_def)
  have vals: "map (\<lambda>t. pkg_field t K_fear)
      (list_of (pkg_field (projr (convert_environment ascii_env demo_environment)) K_traits))
      = [JBool True, JBool False] \<and>
    map (\<lambda>t. pkg_field t K_cost)
      (list_of (pkg_field (projr (convert_environment ascii_env demo_environment)) K_traits))
      = [JStr [50], JStr [48]]"
    by (simp add: rink_eval demo_environment_def)
  from environment_fear_cost [OF run traits] vals show ?thesis by simp
qed

section \<open>The round trip of a flat record\<close>






























end
